theory Spec2Isabelle
  imports Complex_Main "HOL-Library.Word" "HOL-Library.Monad_Syntax"
begin

unbundle bit_operations_syntax

section \<open>Codec layer: EBCDIC and ASCII\<close>

text \<open>
  The two 256-entry lookup tables of \<^verbatim>\<open>segy.c\<close>, entry for entry. A \<^verbatim>\<open>char\<close> is indexed
  through its \<^verbatim>\<open>unsigned char\<close> value, so a byte is an \<open>8 word\<close> and the index is \<open>unat\<close>.
\<close>

type_synonym byte = "8 word"

definition a2e :: "byte list" where
  "a2e = [
      0,   1,   2,   3,  55,  45,  46,  47,  22,   5,  37,  11,  12,  13,  14,  15,
     16,  17,  18,  19,  60,  61,  50,  38,  24,  25,  63,  39,  28,  29,  30,  31,
     64,  79, 127, 123,  91, 108,  80, 125,  77,  93,  92,  78, 107,  96,  75,  97,
    240, 241, 242, 243, 244, 245, 246, 247, 248, 249, 122,  94,  76, 126, 110, 111,
    124, 193, 194, 195, 196, 197, 198, 199, 200, 201, 209, 210, 211, 212, 213, 214,
    215, 216, 217, 226, 227, 228, 229, 230, 231, 232, 233,  74, 224,  90,  95, 109,
    121, 129, 130, 131, 132, 133, 134, 135, 136, 137, 145, 146, 147, 148, 149, 150,
    151, 152, 153, 162, 163, 164, 165, 166, 167, 168, 169, 192, 106, 208, 161,   7,
     32,  33,  34,  35,  36,  21,   6,  23,  40,  41,  42,  43,  44,   9,  10,  27,
     48,  49,  26,  51,  52,  53,  54,   8,  56,  57,  58,  59,   4,  20,  62, 225,
     65,  66,  67,  68,  69,  70,  71,  72,  73,  81,  82,  83,  84,  85,  86,  87,
     88,  89,  98,  99, 100, 101, 102, 103, 104, 105, 112, 113, 114, 115, 116, 117,
    118, 119, 120, 128, 138, 139, 140, 141, 142, 143, 144, 154, 155, 156, 157, 158,
    159, 160, 170, 171, 172, 173, 174, 175, 176, 177, 178, 179, 180, 181, 182, 183,
    184, 185, 186, 187, 188, 189, 190, 191, 202, 203, 204, 205, 206, 207, 218, 219,
    220, 221, 222, 223, 234, 235, 236, 237, 238, 239, 250, 251, 252, 253, 254, 255]"

definition e2a :: "byte list" where
  "e2a = [
      0,   1,   2,   3, 156,   9, 134, 127, 151, 141, 142,  11,  12,  13,  14,  15,
     16,  17,  18,  19, 157, 133,   8, 135,  24,  25, 146, 143,  28,  29,  30,  31,
    128, 129, 130, 131, 132,  10,  23,  27, 136, 137, 138, 139, 140,   5,   6,   7,
    144, 145,  22, 147, 148, 149, 150,   4, 152, 153, 154, 155,  20,  21, 158,  26,
     32, 160, 161, 162, 163, 164, 165, 166, 167, 168,  91,  46,  60,  40,  43,  33,
     38, 169, 170, 171, 172, 173, 174, 175, 176, 177,  93,  36,  42,  41,  59,  94,
     45,  47, 178, 179, 180, 181, 182, 183, 184, 185, 124,  44,  37,  95,  62,  63,
    186, 187, 188, 189, 190, 191, 192, 193, 194,  96,  58,  35,  64,  39,  61,  34,
    195,  97,  98,  99, 100, 101, 102, 103, 104, 105, 196, 197, 198, 199, 200, 201,
    202, 106, 107, 108, 109, 110, 111, 112, 113, 114, 203, 204, 205, 206, 207, 208,
    209, 126, 115, 116, 117, 118, 119, 120, 121, 122, 210, 211, 212, 213, 214, 215,
    216, 217, 218, 219, 220, 221, 222, 223, 224, 225, 226, 227, 228, 229, 230, 231,
    123,  65,  66,  67,  68,  69,  70,  71,  72,  73, 232, 233, 234, 235, 236, 237,
    125,  74,  75,  76,  77,  78,  79,  80,  81,  82, 238, 239, 240, 241, 242, 243,
     92, 159,  83,  84,  85,  86,  87,  88,  89,  90, 244, 245, 246, 247, 248, 249,
     48,  49,  50,  51,  52,  53,  54,  55,  56,  57, 250, 251, 252, 253, 254, 255]"

text \<open>
  \<^verbatim>\<open>ebcdic2ascii(ebcdic, ascii)\<close> and \<^verbatim>\<open>ascii2ebcdic(ascii, ebcdic)\<close>: the source buffer is
  scanned byte by byte until the first \<^verbatim>\<open>'\0'\<close>; every byte before it is sent through the
  table and stored, then a terminating \<^verbatim>\<open>'\0'\<close> is stored. The model returns the bytes
  stored at the destination pointer, in order. A source buffer without a zero byte makes
  the C loop leave the buffer; the model answers \<open>None\<close> there.
\<close>

fun ebcdic2ascii :: "byte list \<Rightarrow> byte list option" where
  "ebcdic2ascii [] = None"
| "ebcdic2ascii (c # cs) =
     (if c \<noteq> 0 then map_option ((#) (e2a ! unat c)) (ebcdic2ascii cs)
      else Some [0])"

fun ascii2ebcdic :: "byte list \<Rightarrow> byte list option" where
  "ascii2ebcdic [] = None"
| "ascii2ebcdic (c # cs) =
     (if c \<noteq> 0 then map_option ((#) (a2e ! unat c)) (ascii2ebcdic cs)
      else Some [0])"

section \<open>Codec layer: byte order and IBM floating point\<close>

type_synonym u32 = "32 word"

text \<open>
  \<^verbatim>\<open>ntohl\<close> and \<^verbatim>\<open>htonl\<close> come from the platform: the identity on a big-endian host, a
  reversal of the four bytes on a little-endian one. The host's byte order is a parameter
  of everything that calls them.
\<close>

datatype endian = LittleEndian | BigEndian

definition bswap32 :: "u32 \<Rightarrow> u32" where
  "bswap32 x = push_bit 24 (take_bit 8 x) OR push_bit 16 (take_bit 8 (drop_bit 8 x))
                 OR push_bit 8 (take_bit 8 (drop_bit 16 x)) OR take_bit 8 (drop_bit 24 x)"

definition ntohl :: "endian \<Rightarrow> u32 \<Rightarrow> u32" where
  "ntohl h x = (case h of BigEndian \<Rightarrow> x | LittleEndian \<Rightarrow> bswap32 x)"

definition htonl :: "endian \<Rightarrow> u32 \<Rightarrow> u32" where
  "htonl h x = (case h of BigEndian \<Rightarrow> x | LittleEndian \<Rightarrow> bswap32 x)"

text \<open>
  \<^verbatim>\<open>ibm2ieee\<close>. The fraction \<^verbatim>\<open>fr\<close> and the sign \<^verbatim>\<open>sgn\<close> are \<^verbatim>\<open>uint32_t\<close>; the exponent
  \<^verbatim>\<open>exp\<close> is a C \<^verbatim>\<open>int\<close> that stays between \<open>-161\<close> and \<open>387\<close> in both converters, far from
  the limits of 32 bits, and is an \<open>int\<close> here.

  The renormalising loop \<^verbatim>\<open>while (fr < 0x80000000) { --exp; fr <<= 1; }\<close> does not end
  when it is entered with \<^verbatim>\<open>fr == 0\<close>, so it is a partial function, and so are the
  converters that run it: \<open>None\<close> stands for a call that does not return.
\<close>

partial_function (option) ibm2ieee_renormalize :: "int \<Rightarrow> u32 \<Rightarrow> (int \<times> u32) option" where
  "ibm2ieee_renormalize expo fr =
     (if fr < 0x80000000 then ibm2ieee_renormalize (expo - 1) (push_bit 1 fr)
      else Some (expo, fr))"

declare ibm2ieee_renormalize.simps [code]

text \<open>The label \<^verbatim>\<open>done\<close> of \<^verbatim>\<open>ibm2ieee\<close>: put the pieces back together.\<close>

definition ibm2ieee_done :: "u32 \<Rightarrow> int \<Rightarrow> u32 \<Rightarrow> u32" where
  "ibm2ieee_done fr expo sign =
     drop_bit 9 fr OR word_of_int (push_bit 23 expo) OR push_bit 31 sign"

text \<open>
  The argument is the word that \<^verbatim>\<open>memcpy\<close> reads at \<^verbatim>\<open>from\<close>, the result the word that
  \<^verbatim>\<open>memcpy\<close> stores at \<^verbatim>\<open>to\<close>.
\<close>

definition ibm2ieee :: "endian \<Rightarrow> u32 \<Rightarrow> u32 option" where
  "ibm2ieee h src =
     (let fr = ntohl h src;
          sign = drop_bit 31 fr;
          fr = push_bit 1 fr;
          expo = uint (drop_bit 25 fr);
          fr = push_bit 7 fr
      in if fr = 0 then Some (ibm2ieee_done fr 0 sign)
         else case ibm2ieee_renormalize (push_bit 2 expo - 130) fr of
                None \<Rightarrow> None
              | Some (expo, fr) \<Rightarrow>
                  if expo \<le> 0 then
                    (if expo < - 24 then Some (ibm2ieee_done 0 0 sign)
                     else Some (ibm2ieee_done (drop_bit (nat (- expo)) fr) 0 sign))
                  else if expo \<ge> 255 then Some (ibm2ieee_done 0 255 sign)
                  else Some (ibm2ieee_done (push_bit 1 fr) expo sign))"

text \<open>
  \<^verbatim>\<open>ieee2ibm\<close>, with its loop \<^verbatim>\<open>while (fr < 0x10000000) { --exp; fr <<= 4; }\<close> and its
  label \<^verbatim>\<open>done\<close>. \<^verbatim>\<open>-exp & 3\<close> is taken on a two's complement \<^verbatim>\<open>int\<close>, as \<open>AND\<close> on \<open>int\<close>
  is; \<^verbatim>\<open>(exp + 3) >> 2\<close> shifts a positive number.
\<close>

partial_function (option) ieee2ibm_renormalize :: "int \<Rightarrow> u32 \<Rightarrow> (int \<times> u32) option" where
  "ieee2ibm_renormalize expo fr =
     (if fr < 0x10000000 then ieee2ibm_renormalize (expo - 1) (push_bit 4 fr)
      else Some (expo, fr))"

declare ieee2ibm_renormalize.simps [code]

definition ieee2ibm_done :: "endian \<Rightarrow> u32 \<Rightarrow> int \<Rightarrow> u32 \<Rightarrow> u32" where
  "ieee2ibm_done h fr expo sign =
     htonl h (drop_bit 8 fr OR word_of_int (push_bit 24 expo) OR push_bit 31 sign)"

text \<open>
  The part of \<^verbatim>\<open>ieee2ibm\<close> between the first \<^verbatim>\<open>if\<close> chain and the label \<^verbatim>\<open>done\<close>: adjust the
  exponent to base 16 and renormalise.
\<close>

definition ieee2ibm_adjust :: "endian \<Rightarrow> u32 \<Rightarrow> int \<Rightarrow> u32 \<Rightarrow> u32 option" where
  "ieee2ibm_adjust h fr expo sign =
     (let expo = expo + 130;
          fr = drop_bit (nat ((- expo) AND 3)) fr;
          expo = drop_bit 2 (expo + 3)
      in case ieee2ibm_renormalize expo fr of
           None \<Rightarrow> None
         | Some (expo, fr) \<Rightarrow> Some (ieee2ibm_done h fr expo sign))"

definition ieee2ibm :: "endian \<Rightarrow> u32 \<Rightarrow> u32 option" where
  "ieee2ibm h src =
     (let fr = src;
          sign = drop_bit 31 fr;
          fr = push_bit 1 fr;
          expo = uint (drop_bit 24 fr);
          fr = push_bit 8 fr
      in if expo = 255 then Some (ieee2ibm_done h 0xffffff00 0x7f sign)
         else if expo > 0 then ieee2ibm_adjust h (drop_bit 1 fr OR 0x80000000) expo sign
         else if fr = 0 then Some (ieee2ibm_done h fr expo sign)
         else ieee2ibm_adjust h fr expo sign)"

text \<open>
  The fields of an IBM single: sign (1 bit), exponent to base 16 in excess 64 (7 bits),
  fraction (24 bits). A pattern is normalised when the leading hexadecimal digit of the
  fraction is not zero, that is, when the fraction is at least \<open>0x100000\<close>.
\<close>

definition ibm_exponent :: "u32 \<Rightarrow> int" where
  "ibm_exponent x = uint (take_bit 7 (drop_bit 24 x))"

definition ibm_fraction :: "u32 \<Rightarrow> u32" where
  "ibm_fraction x = take_bit 24 x"

text \<open>
  The normalised patterns whose magnitude \<open>16 ^ (e - 64) * (f / 2 ^ 24)\<close> lies in the range
  of the normal IEEE singles, from \<open>2 ^ - 126\<close> up to (not including) \<open>2 ^ 128\<close>.
\<close>

definition ibm_in_ieee_normal_range :: "u32 \<Rightarrow> bool" where
  "ibm_in_ieee_normal_range x \<longleftrightarrow>
     0x100000 \<le> ibm_fraction x \<and>
     (34 \<le> ibm_exponent x \<and> ibm_exponent x \<le> 96
      \<or> ibm_exponent x = 33 \<and> 0x400000 \<le> ibm_fraction x)"

section \<open>Declarations of segy.h\<close>

text \<open>
  Modelled from the spec: the header \<^verbatim>\<open>segyio/segy.h\<close> is not among the sources. The spec
  gives the sizes of the three headers (3200, 400 and 240 bytes) and the data format codes
  (1 is the IBM float, 5 the IEEE float).
\<close>

definition SEGY_TEXT_HEADER_SIZE :: int where "SEGY_TEXT_HEADER_SIZE = 3200"
definition SEGY_BINARY_HEADER_SIZE :: int where "SEGY_BINARY_HEADER_SIZE = 400"
definition SEGY_TRACE_HEADER_SIZE :: int where "SEGY_TRACE_HEADER_SIZE = 240"

definition IBM_FLOAT_4_BYTE :: int where "IBM_FLOAT_4_BYTE = 1"
definition IEEE_FLOAT_4_BYTE :: int where "IEEE_FLOAT_4_BYTE = 5"

text \<open>The error codes that \<^verbatim>\<open>segy.c\<close> returns; \<^verbatim>\<open>SEGY_OK\<close> is the code 0 that callers test.\<close>

datatype segy_error =
    SEGY_OK
  | SEGY_FOPEN_ERROR
  | SEGY_FSEEK_ERROR
  | SEGY_FREAD_ERROR
  | SEGY_FWRITE_ERROR
  | SEGY_INVALID_FIELD
  | SEGY_INVALID_SORTING
  | SEGY_MISSING_LINE_INDEX
  | SEGY_INVALID_OFFSETS
  | SEGY_TRACE_SIZE_MISMATCH
  | SEGY_INVALID_ARGS
  | SEGY_MMAP_ERROR
  | SEGY_MMAP_INVALID

datatype sorting = UNKNOWN_SORTING | CROSSLINE_SORTING | INLINE_SORTING

text \<open>
  The field numbers of \<^verbatim>\<open>segy.h\<close> that \<^verbatim>\<open>segy.c\<close> names, and the contents of its two width
  tables, are parameters: \<open>field_size H i\<close> is \<^verbatim>\<open>field_size[i]\<close>, and \<open>bfield_size H i\<close> is
  \<^verbatim>\<open>bfield_size[i]\<close> (indexed from the start of the binary header, as in the source).
\<close>

record segy_h =
  field_size :: "int \<Rightarrow> int"
  bfield_size :: "int \<Rightarrow> int"
  offset :: int
  TRACE_SAMPLE_INTERVAL :: int
  BIN_Interval :: int
  BIN_Samples :: int
  BIN_ExtendedHeaders :: int

section \<open>Results of C calls\<close>

text \<open>
  A function whose C text can leave defined behaviour (an access outside the object or the
  mapping it was given, a write to a read-only mapping, a read of a variable that was never
  stored, an overflow of a signed integer) returns an \<open>option\<close>: \<open>None\<close> says that C
  assigns no result to the call. Error codes are ordinary values inside \<open>Some\<close>.
\<close>

definition int_range :: "int \<Rightarrow> int option" where
  "int_range v = (if - (2 ^ 31) \<le> v \<and> v < 2 ^ 31 then Some v else None)"

definition long_range :: "int \<Rightarrow> int option" where
  "long_range v = (if - (2 ^ 63) \<le> v \<and> v < 2 ^ 63 then Some v else None)"

section \<open>Field access\<close>

text \<open>
  \<^verbatim>\<open>memcpy\<close> of 2 or 4 bytes followed by \<^verbatim>\<open>ntohs\<close> or \<^verbatim>\<open>ntohl\<close> reads the bytes as a
  big-endian number, on either host byte order.
\<close>

definition be16 :: "byte list \<Rightarrow> 16 word" where
  "be16 bs = foldl (\<lambda>acc b. push_bit 8 acc OR ucast b) 0 bs"

definition be32 :: "byte list \<Rightarrow> u32" where
  "be32 bs = foldl (\<lambda>acc b. push_bit 8 acc OR ucast b) 0 bs"

text \<open>
  \<^verbatim>\<open>get_field\<close>: \<open>Inl\<close> is the error code, with \<^verbatim>\<open>*f\<close> left alone; \<open>Inr\<close> is the value stored
  in \<^verbatim>\<open>*f\<close>, with the code \<^verbatim>\<open>SEGY_OK\<close>. The bytes are taken at \<^verbatim>\<open>header + (field - 1)\<close>.
\<close>

definition get_field :: "byte list \<Rightarrow> (int \<Rightarrow> int) \<Rightarrow> int \<Rightarrow> (segy_error + int) option" where
  "get_field header table field =
     (let bsize = table field in
      if bsize = 4 then
        (if 1 \<le> field \<and> nat (field - 1) + 4 \<le> length header
         then Some (Inr (sint (be32 (take 4 (drop (nat (field - 1)) header)))))
         else None)
      else if bsize = 2 then
        (if 1 \<le> field \<and> nat (field - 1) + 2 \<le> length header
         then Some (Inr (sint (be16 (take 2 (drop (nat (field - 1)) header)))))
         else None)
      else Some (Inl SEGY_INVALID_FIELD))"

definition segy_get_field :: "segy_h \<Rightarrow> byte list \<Rightarrow> int \<Rightarrow> (segy_error + int) option" where
  "segy_get_field H traceheader field =
     (if field < 0 \<or> field \<ge> SEGY_TRACE_HEADER_SIZE then Some (Inl SEGY_INVALID_FIELD)
      else get_field traceheader (field_size H) field)"

definition segy_get_bfield :: "segy_h \<Rightarrow> byte list \<Rightarrow> int \<Rightarrow> (segy_error + int) option" where
  "segy_get_bfield H binheader field =
     (let field = field - SEGY_TEXT_HEADER_SIZE in
      if field < 0 \<or> field \<ge> SEGY_BINARY_HEADER_SIZE then Some (Inl SEGY_INVALID_FIELD)
      else get_field binheader (bfield_size H) field)"

text \<open>
  Many callers drop the return code and read the variable afterwards, as in
  \<^verbatim>\<open>segy_get_field( traceheader, il, &il0 );\<close>. The variable holds a value only when the
  call stored one.
\<close>

definition stored :: "(segy_error + int) option \<Rightarrow> int option" where
  "stored r = (case r of Some (Inr v) \<Rightarrow> Some v | _ \<Rightarrow> None)"

definition segy_samples :: "segy_h \<Rightarrow> byte list \<Rightarrow> u32 option" where
  "segy_samples H buf = map_option word_of_int (stored (segy_get_bfield H buf (BIN_Samples H)))"

definition segy_trace_bsize :: "u32 \<Rightarrow> u32" where
  "segy_trace_bsize samples = samples * 4"

definition segy_trace0 :: "segy_h \<Rightarrow> byte list \<Rightarrow> int option" where
  "segy_trace0 H binheader =
     do {
       extra_headers \<leftarrow> stored (segy_get_bfield H binheader (BIN_ExtendedHeaders H));
       extra_size \<leftarrow> int_range (SEGY_TEXT_HEADER_SIZE * extra_headers);
       int_range (SEGY_TEXT_HEADER_SIZE + SEGY_BINARY_HEADER_SIZE + extra_size)
     }"

section \<open>The stream and the file handle\<close>

text \<open>
  The C library's \<^verbatim>\<open>FILE\<close> as far as \<^verbatim>\<open>segy.c\<close> uses it: the bytes of the file, the file
  position, and what the open mode allows. \<^verbatim>\<open>long\<close> and \<^verbatim>\<open>long long\<close> are both 64 bits wide,
  so \<^verbatim>\<open>segy_seek\<close> takes its first branch. Failures of the device are not modelled: a
  transfer fails only when the mode forbids it or, for a read, when the file ends.
\<close>

record stream =
  contents :: "byte list"
  pos :: nat
  readable :: bool
  writable :: bool
  appending :: bool

definition fopen :: "byte list option \<Rightarrow> string \<Rightarrow> stream option" where
  "fopen file m =
     (case m of
        [] \<Rightarrow> None
      | c # rest \<Rightarrow>
          if c = CHR ''r'' then
            (case file of
               None \<Rightarrow> None
             | Some bs \<Rightarrow> Some \<lparr>contents = bs, pos = 0, readable = True,
                                writable = (CHR ''+'' \<in> set rest), appending = False\<rparr>)
          else if c = CHR ''w'' then
            Some \<lparr>contents = [], pos = 0, readable = (CHR ''+'' \<in> set rest),
                  writable = True, appending = False\<rparr>
          else if c = CHR ''a'' then
            Some \<lparr>contents = (case file of None \<Rightarrow> [] | Some bs \<Rightarrow> bs), pos = 0,
                  readable = (CHR ''+'' \<in> set rest), writable = True, appending = True\<rparr>
          else None)"

text \<open>\<^verbatim>\<open>fseek\<close> with \<^verbatim>\<open>SEEK_SET\<close> and with \<^verbatim>\<open>SEEK_CUR\<close>: 0 on success, -1 on a negative target.\<close>

definition fseek_set :: "stream \<Rightarrow> int \<Rightarrow> int \<times> stream" where
  "fseek_set s off = (if off < 0 then (- 1, s) else (0, s\<lparr>pos := nat off\<rparr>))"

definition fseek_cur :: "stream \<Rightarrow> int \<Rightarrow> int \<times> stream" where
  "fseek_cur s off =
     (let p = int (pos s) + off in if p < 0 then (- 1, s) else (0, s\<lparr>pos := nat p\<rparr>))"

text \<open>
  \<^verbatim>\<open>fread( buf, 1, n, fp )\<close> gives the bytes it stored at \<^verbatim>\<open>buf\<close>; their number is the return
  value. \<^verbatim>\<open>fwrite( buf, 1, n, fp )\<close> takes the \<open>n\<close> bytes and gives the return value.
\<close>

definition fread :: "nat \<Rightarrow> stream \<Rightarrow> byte list \<times> stream" where
  "fread n s =
     (if readable s then
        let got = take n (drop (pos s) (contents s))
        in (got, s\<lparr>pos := pos s + length got\<rparr>)
      else ([], s))"

definition store_at :: "nat \<Rightarrow> byte list \<Rightarrow> byte list \<Rightarrow> byte list" where
  "store_at p bs old =
     (let padded = old @ replicate (p - length old) 0
      in take p padded @ bs @ drop (p + length bs) padded)"

definition fwrite :: "byte list \<Rightarrow> stream \<Rightarrow> nat \<times> stream" where
  "fwrite bs s =
     (if writable s then
        let p = (if appending s then length (contents s) else pos s)
        in (length bs, s\<lparr>contents := store_at p bs (contents s), pos := p + length bs\<rparr>)
      else (0, s))"

text \<open>The first \<open>n\<close> bytes of a caller's buffer; a shorter buffer is read past its end.\<close>

definition buffer :: "nat \<Rightarrow> byte list \<Rightarrow> byte list option" where
  "buffer n buf = (if n \<le> length buf then Some (take n buf) else None)"

text \<open>
  \<^verbatim>\<open>struct segy_file_handle\<close>. \<open>addr\<close> says whether \<^verbatim>\<open>fp->addr\<close> is set, that is, whether the
  file is mapped; \<open>cur\<close> is the distance of \<^verbatim>\<open>fp->cur\<close> from \<^verbatim>\<open>fp->addr\<close>. The mapping is
  shared, so it shows the bytes of the file.
\<close>

record segy_file =
  addr :: bool
  cur :: int
  fp :: stream
  fsize :: nat
  mode :: string

text \<open>
  \<^verbatim>\<open>segy_open\<close>: \<open>None\<close> is the null pointer. The first argument is the file found at the
  path, if there is one.
\<close>

definition segy_open :: "byte list option \<Rightarrow> string \<Rightarrow> segy_file option" where
  "segy_open file m =
     (case fopen file m of
        None \<Rightarrow> None
      | Some s \<Rightarrow> Some \<lparr>addr = False, cur = 0, fp = s, fsize = 0, mode = take 3 m\<rparr>)"

text \<open>
  \<^verbatim>\<open>segy_mmap\<close> on a platform with \<^verbatim>\<open>mmap\<close>. The call \<^verbatim>\<open>mmap\<close> fails on an empty file, on a
  descriptor that is not open for reading, and on a request for a writable shared mapping
  of a descriptor that is not open for writing.
\<close>

definition mmap_rw :: "segy_file \<Rightarrow> bool" where
  "mmap_rw f \<longleftrightarrow> CHR ''+'' \<in> set (mode f) \<or> CHR ''w'' \<in> set (mode f)"

definition segy_mmap :: "segy_file \<Rightarrow> segy_error \<times> segy_file" where
  "segy_mmap f =
     (let f = f\<lparr>fsize := length (contents (fp f))\<rparr>;
          rw = mmap_rw f
      in if fsize f = 0 \<or> \<not> readable (fp f) \<or> (rw \<and> \<not> writable (fp f))
         then (SEGY_MMAP_ERROR, f)
         else (SEGY_OK, f\<lparr>addr := True, cur := 0\<rparr>))"

text \<open>\<^verbatim>\<open>memcpy\<close> out of and into the mapping at the cursor.\<close>

definition mapped_read :: "segy_file \<Rightarrow> nat \<Rightarrow> byte list option" where
  "mapped_read f n =
     (if 0 \<le> cur f \<and> nat (cur f) + n \<le> fsize f \<and> nat (cur f) + n \<le> length (contents (fp f))
      then Some (take n (drop (nat (cur f)) (contents (fp f))))
      else None)"

definition mapped_write :: "segy_file \<Rightarrow> byte list \<Rightarrow> segy_file option" where
  "mapped_write f bs =
     (if mmap_rw f \<and> 0 \<le> cur f \<and> nat (cur f) + length bs \<le> fsize f
         \<and> nat (cur f) + length bs \<le> length (contents (fp f))
      then Some (f\<lparr>fp := (fp f)\<lparr>contents := store_at (nat (cur f)) bs (contents (fp f))\<rparr>\<rparr>)
      else None)"

section \<open>Seeking, headers and traces\<close>

definition segy_seek :: "segy_file \<Rightarrow> int \<Rightarrow> int \<Rightarrow> u32 \<Rightarrow> (segy_error \<times> segy_file) option" where
  "segy_seek f trace trace0 trace_bsize =
     do {
       let trace_bsize = trace_bsize + word_of_int SEGY_TRACE_HEADER_SIZE;
       p \<leftarrow> long_range (trace0 + trace * uint trace_bsize);
       if addr f then
         (if nat (p mod 2 ^ 64) \<ge> fsize f then Some (SEGY_FSEEK_ERROR, f)
          else Some (SEGY_OK, f\<lparr>cur := p\<rparr>))
       else
         (let (err, s) = fseek_set (fp f) p
          in if err \<noteq> 0 then Some (SEGY_FSEEK_ERROR, f\<lparr>fp := s\<rparr>)
             else Some (SEGY_OK, f\<lparr>fp := s\<rparr>))
     }"

text \<open>
  The reading functions give, next to the error code and the handle, the bytes that they
  stored at \<^verbatim>\<open>buf\<close>. The trace number is an \<^verbatim>\<open>unsigned int\<close> that \<^verbatim>\<open>segy_seek\<close> takes as an
  \<^verbatim>\<open>int\<close>.
\<close>

definition segy_traceheader ::
  "segy_file \<Rightarrow> u32 \<Rightarrow> int \<Rightarrow> u32 \<Rightarrow> (segy_error \<times> byte list \<times> segy_file) option" where
  "segy_traceheader f traceno trace0 trace_bsize =
     do {
       (err, f) \<leftarrow> segy_seek f (sint traceno) trace0 trace_bsize;
       if err \<noteq> SEGY_OK then Some (err, [], f)
       else if addr f then
         do {
           bs \<leftarrow> mapped_read f (nat SEGY_TRACE_HEADER_SIZE);
           Some (SEGY_OK, bs, f)
         }
       else
         (let (got, s) = fread (nat SEGY_TRACE_HEADER_SIZE) (fp f)
          in if int (length got) \<noteq> SEGY_TRACE_HEADER_SIZE
             then Some (SEGY_FREAD_ERROR, got, f\<lparr>fp := s\<rparr>)
             else Some (SEGY_OK, got, f\<lparr>fp := s\<rparr>))
     }"

definition segy_write_traceheader ::
  "segy_file \<Rightarrow> u32 \<Rightarrow> byte list \<Rightarrow> int \<Rightarrow> u32 \<Rightarrow> (segy_error \<times> segy_file) option" where
  "segy_write_traceheader f traceno buf trace0 trace_bsize =
     do {
       (err, f) \<leftarrow> segy_seek f (sint traceno) trace0 trace_bsize;
       if err \<noteq> SEGY_OK then Some (err, f)
       else
         do {
           bs \<leftarrow> buffer (nat SEGY_TRACE_HEADER_SIZE) buf;
           if addr f then
             do {
               f \<leftarrow> mapped_write f bs;
               Some (SEGY_OK, f)
             }
           else
             (let (writec, s) = fwrite bs (fp f)
              in if int writec \<noteq> SEGY_TRACE_HEADER_SIZE
                 then Some (SEGY_FWRITE_ERROR, f\<lparr>fp := s\<rparr>)
                 else Some (SEGY_OK, f\<lparr>fp := s\<rparr>))
         }
     }"

definition skip_traceheader :: "segy_file \<Rightarrow> segy_error \<times> segy_file" where
  "skip_traceheader f =
     (if addr f then (SEGY_OK, f\<lparr>cur := cur f + SEGY_TRACE_HEADER_SIZE\<rparr>)
      else
        let (err, s) = fseek_cur (fp f) SEGY_TRACE_HEADER_SIZE
        in if err \<noteq> 0 then (SEGY_FSEEK_ERROR, f\<lparr>fp := s\<rparr>) else (SEGY_OK, f\<lparr>fp := s\<rparr>))"

definition segy_readtrace ::
  "segy_file \<Rightarrow> u32 \<Rightarrow> int \<Rightarrow> u32 \<Rightarrow> (segy_error \<times> byte list \<times> segy_file) option" where
  "segy_readtrace f traceno trace0 trace_bsize =
     do {
       (err, f) \<leftarrow> segy_seek f (sint traceno) trace0 trace_bsize;
       if err \<noteq> SEGY_OK then Some (err, [], f)
       else
         (let (err, f) = skip_traceheader f
          in if err \<noteq> SEGY_OK then Some (err, [], f)
             else if addr f then
               do {
                 bs \<leftarrow> mapped_read f (unat trace_bsize);
                 Some (SEGY_OK, bs, f)
               }
             else
               (let (got, s) = fread (unat trace_bsize) (fp f)
                in if length got \<noteq> unat trace_bsize
                   then Some (SEGY_FREAD_ERROR, got, f\<lparr>fp := s\<rparr>)
                   else Some (SEGY_OK, got, f\<lparr>fp := s\<rparr>)))
     }"

definition segy_writetrace ::
  "segy_file \<Rightarrow> u32 \<Rightarrow> byte list \<Rightarrow> int \<Rightarrow> u32 \<Rightarrow> (segy_error \<times> segy_file) option" where
  "segy_writetrace f traceno buf trace0 trace_bsize =
     do {
       (err, f) \<leftarrow> segy_seek f (sint traceno) trace0 trace_bsize;
       if err \<noteq> SEGY_OK then Some (err, f)
       else
         (let (err, f) = skip_traceheader f
          in if err \<noteq> SEGY_OK then Some (err, f)
             else
               do {
                 bs \<leftarrow> buffer (unat trace_bsize) buf;
                 if addr f then
                   do {
                     f \<leftarrow> mapped_write f bs;
                     Some (SEGY_OK, f)
                   }
                 else
                   (let (writec, s) = fwrite bs (fp f)
                    in if writec \<noteq> unat trace_bsize
                       then Some (SEGY_FWRITE_ERROR, f\<lparr>fp := s\<rparr>)
                       else Some (SEGY_OK, f\<lparr>fp := s\<rparr>))
               })
     }"

text \<open>
  The functions that test \<^verbatim>\<open>fp == NULL\<close> take an optional handle. They use the stream
  also when the file is mapped.
\<close>

definition segy_binheader :: "segy_file option \<Rightarrow> segy_error \<times> byte list \<times> segy_file option" where
  "segy_binheader fpo =
     (case fpo of
        None \<Rightarrow> (SEGY_INVALID_ARGS, [], None)
      | Some f \<Rightarrow>
          let (err, s) = fseek_set (fp f) SEGY_TEXT_HEADER_SIZE
          in if err \<noteq> 0 then (SEGY_FSEEK_ERROR, [], Some (f\<lparr>fp := s\<rparr>))
             else
               let (got, s) = fread (nat SEGY_BINARY_HEADER_SIZE) s
               in if int (length got) \<noteq> SEGY_BINARY_HEADER_SIZE
                  then (SEGY_FREAD_ERROR, got, Some (f\<lparr>fp := s\<rparr>))
                  else (SEGY_OK, got, Some (f\<lparr>fp := s\<rparr>)))"

definition segy_write_binheader ::
  "segy_file option \<Rightarrow> byte list \<Rightarrow> (segy_error \<times> segy_file option) option" where
  "segy_write_binheader fpo buf =
     (case fpo of
        None \<Rightarrow> Some (SEGY_INVALID_ARGS, None)
      | Some f \<Rightarrow>
          let (err, s) = fseek_set (fp f) SEGY_TEXT_HEADER_SIZE
          in if err \<noteq> 0 then Some (SEGY_FSEEK_ERROR, Some (f\<lparr>fp := s\<rparr>))
             else
               do {
                 bs \<leftarrow> buffer (nat SEGY_BINARY_HEADER_SIZE) buf;
                 let (writec, s) = fwrite bs s;
                 if int writec \<noteq> SEGY_BINARY_HEADER_SIZE
                 then Some (SEGY_FWRITE_ERROR, Some (f\<lparr>fp := s\<rparr>))
                 else Some (SEGY_OK, Some (f\<lparr>fp := s\<rparr>))
               })"

text \<open>
  \<^verbatim>\<open>segy_write_textheader\<close>. The local array \<^verbatim>\<open>mbuf\<close> of 3201 bytes starts with indeterminate
  contents, which are the argument \<open>mbuf\<close>; \<^verbatim>\<open>ascii2ebcdic\<close> stores into its front, and the
  first 3200 bytes are written. \<^verbatim>\<open>pos\<close> is an \<^verbatim>\<open>unsigned int\<close>, and so is the offset computed from it.
\<close>

definition segy_write_textheader ::
  "segy_file \<Rightarrow> u32 \<Rightarrow> byte list \<Rightarrow> byte list \<Rightarrow> (segy_error \<times> segy_file) option" where
  "segy_write_textheader f p buf mbuf =
     do {
       e \<leftarrow> ascii2ebcdic buf;
       mbuf \<leftarrow> (if length mbuf = nat (SEGY_TEXT_HEADER_SIZE + 1) \<and> length e \<le> length mbuf
                then Some (e @ drop (length e) mbuf) else None);
       let off = (if p = 0 then 0
                  else uint (word_of_int (SEGY_TEXT_HEADER_SIZE + SEGY_BINARY_HEADER_SIZE)
                             + (p - 1) * word_of_int SEGY_TEXT_HEADER_SIZE :: u32));
       let (err, s) = fseek_set (fp f) off;
       if err \<noteq> 0 then Some (SEGY_FSEEK_ERROR, f\<lparr>fp := s\<rparr>)
       else
         do {
           bs \<leftarrow> buffer (nat SEGY_TEXT_HEADER_SIZE) mbuf;
           let (writec, s) = fwrite bs s;
           if int writec \<noteq> SEGY_TEXT_HEADER_SIZE
           then Some (SEGY_FWRITE_ERROR, f\<lparr>fp := s\<rparr>)
           else Some (SEGY_OK, f\<lparr>fp := s\<rparr>)
         }
     }"

text \<open>
  \<^verbatim>\<open>segy_traces\<close>: the size of the file comes from \<^verbatim>\<open>fstat\<close>, which does not fail on an open
  stream. The difference to \<^verbatim>\<open>trace0\<close> is converted to \<^verbatim>\<open>size_t\<close>.
\<close>

definition segy_traces :: "segy_file \<Rightarrow> int \<Rightarrow> u32 \<Rightarrow> (segy_error + nat) option" where
  "segy_traces f trace0 trace_bsize =
     (let fsize = int (length (contents (fp f)));
          trace_bsize = trace_bsize + word_of_int SEGY_TRACE_HEADER_SIZE;
          trace_data_size = (fsize - trace0) mod 2 ^ 64
      in if trace_bsize = 0 then None
         else if trace_data_size mod uint trace_bsize \<noteq> 0 then Some (Inl SEGY_TRACE_SIZE_MISMATCH)
         else Some (Inr (nat (trace_data_size div uint trace_bsize))))"

section \<open>Geometry layer\<close>

text \<open>
  \<^verbatim>\<open>segy_sample_interval\<close>. The result is \<open>Inl\<close> of the error code or \<open>Inr\<close> of the value of
  \<^verbatim>\<open>*dt\<close> at the return of \<^verbatim>\<open>0\<close>; the argument \<open>dt\<close> is the value of \<^verbatim>\<open>*dt\<close> at the call. A
  \<^verbatim>\<open>double\<close> is a real number here: the quotient by \<^verbatim>\<open>1000.0\<close> is kept exact.
\<close>

definition segy_sample_interval ::
  "segy_h \<Rightarrow> segy_file option \<Rightarrow> real \<Rightarrow> ((segy_error + real) \<times> segy_file option) option" where
  "segy_sample_interval H fpo dt =
     (let (err, bin_header, fpo) = segy_binheader fpo
      in if err \<noteq> SEGY_OK then Some (Inl err, fpo)
         else
           do {
             f \<leftarrow> fpo;
             trace0 \<leftarrow> segy_trace0 H bin_header;
             samples \<leftarrow> segy_samples H bin_header;
             let trace_bsize = segy_trace_bsize samples;
             (err, trace_header, f) \<leftarrow> segy_traceheader f 0 trace0 trace_bsize;
             if err \<noteq> SEGY_OK then Some (Inl err, Some f)
             else
               do {
                 binary_header_dt_us \<leftarrow> stored (segy_get_bfield H bin_header (BIN_Interval H));
                 trace_header_dt_us \<leftarrow>
                   stored (segy_get_field H trace_header (TRACE_SAMPLE_INTERVAL H));
                 let binary_header_dt_ms = real_of_int binary_header_dt_us / 1000;
                 let trace_header_dt_ms = real_of_int trace_header_dt_us / 1000;
                 if trace_header_dt_us = 0 \<and> binary_header_dt_us = 0 then Some (Inr dt, Some f)
                 else if binary_header_dt_us = 0 then Some (Inr trace_header_dt_ms, Some f)
                 else if trace_header_dt_us = 0 then Some (Inr binary_header_dt_ms, Some f)
                 else if trace_header_dt_us = binary_header_dt_us
                   then Some (Inr trace_header_dt_ms, Some f)
                 else Some (Inr dt, Some f)
               }
           })"

text \<open>
  \<^verbatim>\<open>segy_sorting\<close>. Its \<^verbatim>\<open>do ... while\<close> loop reads the traces from \<^verbatim>\<open>traceno\<close> on and goes on
  while the offset read differs from \<^verbatim>\<open>off0\<close> and \<^verbatim>\<open>traceno < traces\<close>; it leaves the inline
  and crossline numbers read last in \<^verbatim>\<open>il1\<close> and \<^verbatim>\<open>xl1\<close>.
\<close>

function sorting_loop ::
  "segy_h \<Rightarrow> segy_file \<Rightarrow> int \<Rightarrow> int \<Rightarrow> int \<Rightarrow> int \<Rightarrow> int \<Rightarrow> u32 \<Rightarrow> int
     \<Rightarrow> ((segy_error + int \<times> int) \<times> segy_file) option" where
  "sorting_loop H f il xl off0 traces trace0 trace_bsize traceno =
     (case segy_traceheader f (word_of_int traceno) trace0 trace_bsize of
        None \<Rightarrow> None
      | Some (err, traceheader, f) \<Rightarrow>
          if err \<noteq> SEGY_OK then Some (Inl err, f)
          else
            (case (stored (segy_get_field H traceheader il),
                   stored (segy_get_field H traceheader xl),
                   stored (segy_get_field H traceheader (offset H))) of
               (Some il1, Some xl1, Some off1) \<Rightarrow>
                 if off0 \<noteq> off1 \<and> traceno + 1 < traces
                 then sorting_loop H f il xl off0 traces trace0 trace_bsize (traceno + 1)
                 else Some (Inr (il1, xl1), f)
             | _ \<Rightarrow> None))"
  by pat_completeness auto
termination
  by (relation "measure (\<lambda>(H, f, il, xl, off0, traces, trace0, trace_bsize, traceno).
                           nat (traces - traceno))") auto

declare sorting_loop.simps [simp del]

definition segy_sorting ::
  "segy_h \<Rightarrow> segy_file \<Rightarrow> int \<Rightarrow> int \<Rightarrow> int \<Rightarrow> u32 \<Rightarrow> ((segy_error + sorting) \<times> segy_file) option" where
  "segy_sorting H f il xl trace0 trace_bsize =
     do {
       (err, traceheader, f) \<leftarrow> segy_traceheader f 0 trace0 trace_bsize;
       if err \<noteq> SEGY_OK then Some (Inl err, f)
       else if il < 0 \<or> il \<ge> SEGY_TRACE_HEADER_SIZE then Some (Inl SEGY_INVALID_FIELD, f)
       else if xl < 0 \<or> xl \<ge> SEGY_TRACE_HEADER_SIZE then Some (Inl SEGY_INVALID_FIELD, f)
       else if field_size H il = 0 \<or> field_size H xl = 0 then Some (Inl SEGY_INVALID_FIELD, f)
       else
         do {
           il0 \<leftarrow> stored (segy_get_field H traceheader il);
           xl0 \<leftarrow> stored (segy_get_field H traceheader xl);
           off0 \<leftarrow> stored (segy_get_field H traceheader (offset H));
           r \<leftarrow> segy_traces f trace0 trace_bsize;
           case r of
             Inl err \<Rightarrow> Some (Inl err, f)
           | Inr traces_size_t \<Rightarrow>
               do {
                 let traces = sint (word_of_nat traces_size_t :: u32);
                 (r, f) \<leftarrow> sorting_loop H f il xl off0 traces trace0 trace_bsize 1;
                 case r of
                   Inl err \<Rightarrow> Some (Inl err, f)
                 | Inr (il1, xl1) \<Rightarrow>
                     do {
                       (err, traceheader, f) \<leftarrow>
                         segy_traceheader f (word_of_int (traces - 1)) trace0 trace_bsize;
                       if err \<noteq> SEGY_OK then Some (Inl err, f)
                       else
                         do {
                           il_last \<leftarrow> stored (segy_get_field H traceheader il);
                           xl_last \<leftarrow> stored (segy_get_field H traceheader xl);
                           if il0 = il_last then Some (Inr CROSSLINE_SORTING, f)
                           else if xl0 = xl_last then Some (Inr INLINE_SORTING, f)
                           else if il0 = il1 then Some (Inr INLINE_SORTING, f)
                           else if xl0 = xl1 then Some (Inr CROSSLINE_SORTING, f)
                           else Some (Inl SEGY_INVALID_SORTING, f)
                         }
                     }
               }
         }
     }"




text \<open>
  \<^verbatim>\<open>segy_read_line\<close> and \<^verbatim>\<open>segy_write_line\<close>. The \<^verbatim>\<open>for\<close> loop runs \<^verbatim>\<open>line_length\<close> times; the
  buffer pointer advances by \<^verbatim>\<open>trace_bsize / 4\<close> floats, that is, by four times as many
  bytes. \<open>buf\<close> is the caller's buffer and \<open>ofs\<close> the distance of the moving pointer from
  its start.
\<close>

definition store_buf :: "nat \<Rightarrow> byte list \<Rightarrow> byte list \<Rightarrow> byte list option" where
  "store_buf ofs bs buf =
     (if ofs + length bs \<le> length buf then Some (take ofs buf @ bs @ drop (ofs + length bs) buf)
      else None)"

fun read_line_loop ::
  "segy_file \<Rightarrow> u32 \<Rightarrow> nat \<Rightarrow> u32 \<Rightarrow> nat \<Rightarrow> byte list \<Rightarrow> int \<Rightarrow> u32
     \<Rightarrow> (segy_error \<times> byte list \<times> segy_file) option" where
  "read_line_loop f line_trace0 0 stride ofs buf trace0 trace_bsize = Some (SEGY_OK, buf, f)"
| "read_line_loop f line_trace0 (Suc line_length) stride ofs buf trace0 trace_bsize =
     do {
       (err, bs, f) \<leftarrow> segy_readtrace f line_trace0 trace0 trace_bsize;
       buf \<leftarrow> store_buf ofs bs buf;
       if err \<noteq> SEGY_OK then Some (err, buf, f)
       else read_line_loop f (line_trace0 + stride) line_length stride
              (ofs + 4 * (unat trace_bsize div 4)) buf trace0 trace_bsize
     }"

definition segy_read_line ::
  "segy_file \<Rightarrow> u32 \<Rightarrow> u32 \<Rightarrow> u32 \<Rightarrow> int \<Rightarrow> byte list \<Rightarrow> int \<Rightarrow> u32
     \<Rightarrow> (segy_error \<times> byte list \<times> segy_file) option" where
  "segy_read_line f line_trace0 line_length stride offsets buf trace0 trace_bsize =
     (let stride = stride * word_of_int offsets
      in read_line_loop f line_trace0 (unat line_length) stride 0 buf trace0 trace_bsize)"

fun write_line_loop ::
  "segy_file \<Rightarrow> u32 \<Rightarrow> nat \<Rightarrow> u32 \<Rightarrow> nat \<Rightarrow> byte list \<Rightarrow> int \<Rightarrow> u32
     \<Rightarrow> (segy_error \<times> segy_file) option" where
  "write_line_loop f line_trace0 0 stride ofs buf trace0 trace_bsize = Some (SEGY_OK, f)"
| "write_line_loop f line_trace0 (Suc line_length) stride ofs buf trace0 trace_bsize =
     do {
       (err, f) \<leftarrow> segy_writetrace f line_trace0 (drop ofs buf) trace0 trace_bsize;
       if err \<noteq> SEGY_OK then Some (err, f)
       else write_line_loop f (line_trace0 + stride) line_length stride
              (ofs + 4 * (unat trace_bsize div 4)) buf trace0 trace_bsize
     }"

definition segy_write_line ::
  "segy_file \<Rightarrow> u32 \<Rightarrow> u32 \<Rightarrow> u32 \<Rightarrow> int \<Rightarrow> byte list \<Rightarrow> int \<Rightarrow> u32
     \<Rightarrow> (segy_error \<times> segy_file) option" where
  "segy_write_line f line_trace0 line_length stride offsets buf trace0 trace_bsize =
     (let line_trace0 = line_trace0 * word_of_int offsets;
          stride = stride * word_of_int offsets
      in write_line_loop f line_trace0 (unat line_length) stride 0 buf trace0 trace_bsize)"

section \<open>Conversion of samples to native floats\<close>

text \<open>
  \<^verbatim>\<open>segy_to_native\<close>. The buffer is a list of 32-bit words, one for each \<^verbatim>\<open>float\<close>, as
  \<^verbatim>\<open>memcpy\<close> reads them. Both \<^verbatim>\<open>while( size-- )\<close> loops are instances of one loop that
  stores the conversion \<open>conv\<close> of every element: it stops when the \<^verbatim>\<open>int\<close> \<^verbatim>\<open>size\<close> (here \<open>sz\<close>) is zero,
  and has no result when it leaves the buffer or when a conversion does not return.
\<close>

fun to_native_loop :: "(u32 \<Rightarrow> u32 option) \<Rightarrow> int \<Rightarrow> u32 list \<Rightarrow> u32 list option" where
  "to_native_loop conv sz [] = (if sz = 0 then Some [] else None)"
| "to_native_loop conv sz (u # buf) =
     (if sz = 0 then Some (u # buf)
      else
        do {
          u \<leftarrow> conv u;
          buf \<leftarrow> to_native_loop conv (sz - 1) buf;
          Some (u # buf)
        })"

definition segy_to_native :: "endian \<Rightarrow> int \<Rightarrow> int \<Rightarrow> u32 list \<Rightarrow> (segy_error \<times> u32 list) option" where
  "segy_to_native h format sz buf =
     (if format = IEEE_FLOAT_4_BYTE
      then map_option (Pair SEGY_OK) (to_native_loop (\<lambda>u. Some (ntohl h u)) sz buf)
      else map_option (Pair SEGY_OK) (to_native_loop (ibm2ieee h) sz buf))"

section \<open>Notions used in the statements\<close>

text \<open>
  Two handles on the same file in the same state of opening: they may differ in the stream
  position and in the cursor only.
\<close>

definition same_file :: "segy_file \<Rightarrow> segy_file \<Rightarrow> bool" where
  "same_file f g \<longleftrightarrow>
     addr g = addr f \<and> fsize g = fsize f \<and> mode g = mode f
     \<and> contents (fp g) = contents (fp f) \<and> readable (fp g) = readable (fp f)
     \<and> writable (fp g) = writable (fp f) \<and> appending (fp g) = appending (fp f)"

text \<open>
  A handle that can be read: its stream is open for reading and, when the file is mapped,
  the mapping covers the file as it is now.
\<close>

definition readable_handle :: "segy_file \<Rightarrow> bool" where
  "readable_handle f \<longleftrightarrow>
     readable (fp f) \<and> (addr f \<longrightarrow> fsize f = length (contents (fp f)))"

text \<open>
  The trace \<open>traceno\<close> lies inside the file: \<^verbatim>\<open>trace0\<close> is a position that fits an \<^verbatim>\<open>int\<close>, the
  size of a trace with its header fits an \<^verbatim>\<open>unsigned int\<close>, the trace number fits an \<^verbatim>\<open>int\<close>,
  and the file reaches to the end of the trace. \<open>trace_pos\<close> is where the trace begins.
\<close>

definition trace_pos :: "int \<Rightarrow> u32 \<Rightarrow> nat \<Rightarrow> nat" where
  "trace_pos trace0 trace_bsize i = nat trace0 + i * (240 + unat trace_bsize)"

definition trace_in_file :: "byte list \<Rightarrow> int \<Rightarrow> u32 \<Rightarrow> u32 \<Rightarrow> bool" where
  "trace_in_file bytes trace0 trace_bsize traceno \<longleftrightarrow>
     0 \<le> trace0 \<and> trace0 < 2 ^ 31 \<and> unat trace_bsize + 240 < 2 ^ 32 \<and> unat traceno < 2 ^ 31
     \<and> trace_pos trace0 trace_bsize (unat traceno + 1) \<le> length bytes"

text \<open>
  An instance of the parameters \<open>segy_h\<close>, for evaluating the functions on concrete files:
  the field numbers of the SEG-Y rev.1 layout that the functions below read (offset 37,
  sample interval 117, inline 189 and crossline 193 in the trace header; sample interval
  3217, sample count 3221 and extended headers 3505 in the binary header), with their
  widths.
\<close>

definition segy_rev1 :: segy_h where
  "segy_rev1 =
     \<lparr>field_size = (\<lambda>i. if i = 37 \<or> i = 189 \<or> i = 193 then 4 else if i = 117 then 2 else 0),
      bfield_size = (\<lambda>i. if i = 17 \<or> i = 21 \<or> i = 305 then 2 else 0),
      offset = 37,
      TRACE_SAMPLE_INTERVAL = 117,
      BIN_Interval = 3217,
      BIN_Samples = 3221,
      BIN_ExtendedHeaders = 3505\<rparr>"

text \<open>
  Every entry of the trace header table that has the width 2 or 4 describes a field that
  lies inside the 240 bytes of a trace header.
\<close>

definition fields_inside :: "segy_h \<Rightarrow> bool" where
  "fields_inside H \<longleftrightarrow>
     (\<forall>i\<in>{0..<240}. (field_size H i = 4 \<longrightarrow> 1 \<le> i \<and> i + 3 \<le> 240)
                   \<and> (field_size H i = 2 \<longrightarrow> 1 \<le> i \<and> i + 1 \<le> 240))"

text \<open>
  The value of a header field of the trace \<open>i\<close> of a file, as \<^verbatim>\<open>segy_get_field\<close> stores it
  (0 where it stores nothing).
\<close>

definition field_at :: "segy_h \<Rightarrow> byte list \<Rightarrow> int \<Rightarrow> u32 \<Rightarrow> int \<Rightarrow> nat \<Rightarrow> int" where
  "field_at H bytes trace0 trace_bsize field i =
     (case stored (segy_get_field H (take 240 (drop (trace_pos trace0 trace_bsize i) bytes)) field) of
        Some v \<Rightarrow> v
      | None \<Rightarrow> 0)"

text \<open>A file that consists of \<open>T\<close> traces of one size from \<^verbatim>\<open>trace0\<close> on.\<close>

definition file_of_traces :: "byte list \<Rightarrow> int \<Rightarrow> u32 \<Rightarrow> nat \<Rightarrow> bool" where
  "file_of_traces bytes trace0 trace_bsize T \<longleftrightarrow>
     0 \<le> trace0 \<and> trace0 < 2 ^ 31 \<and> unat trace_bsize + 240 < 2 ^ 32 \<and> T < 2 ^ 31
     \<and> length bytes = trace_pos trace0 trace_bsize T"

text \<open>
  \<open>find_from P j n\<close> is the first of the \<open>n\<close> indices from \<open>j\<close> on that satisfies \<open>P\<close>, and
  \<open>j + n\<close> when none of them does.
\<close>

fun find_from :: "(nat \<Rightarrow> bool) \<Rightarrow> nat \<Rightarrow> nat \<Rightarrow> nat" where
  "find_from P j 0 = j"
| "find_from P j (Suc n) = (if P j then j else find_from P (Suc j) n)"

text \<open>
  The walk of the spec, in its words: from trace 1 forward until the offset changes or the
  end of the file is reached. \<open>off\<close> gives the offset of each trace, \<open>T\<close> is the number of
  traces.
\<close>

definition spec_walk_stop :: "(nat \<Rightarrow> int) \<Rightarrow> nat \<Rightarrow> nat" where
  "spec_walk_stop off T = find_from (\<lambda>j. off j \<noteq> off 0) 1 (T - 2)"

text \<open>
  The walk with the condition the other way round: from trace 1 forward until the offset
  is that of trace 0 again or the last trace is reached.
\<close>

definition same_offset_stop :: "(nat \<Rightarrow> int) \<Rightarrow> nat \<Rightarrow> nat" where
  "same_offset_stop off T = find_from (\<lambda>j. off j = off 0) 1 (T - 2)"

text \<open>
  The tie-break table of the spec, row by row. \<open>il\<close> and \<open>xl\<close> give the inline and crossline
  number of each trace, \<open>T\<close> is the number of traces and \<open>s\<close> the trace that stands for
  ``trace 1''.
\<close>

definition spec_tie_break :: "(nat \<Rightarrow> int) \<Rightarrow> (nat \<Rightarrow> int) \<Rightarrow> nat \<Rightarrow> nat \<Rightarrow> segy_error + sorting" where
  "spec_tie_break il xl T s =
     (if il 0 = il (T - 1) then Inr CROSSLINE_SORTING
      else if xl 0 = xl (T - 1) then Inr INLINE_SORTING
      else if il 0 = il s then Inr INLINE_SORTING
      else if xl 0 = xl s then Inr CROSSLINE_SORTING
      else Inl SEGY_INVALID_SORTING)"

text \<open>
  A file of three traces without samples: the inline numbers are 1, 1, 2, the crossline
  numbers 1, 2, 3, and the offset is 0 in every trace.
\<close>

definition three_traces :: "byte list" where
  "three_traces =
     replicate 188 0 @ [0, 0, 0, 1, 0, 0, 0, 1] @ replicate 44 0
     @ replicate 188 0 @ [0, 0, 0, 1, 0, 0, 0, 2] @ replicate 44 0
     @ replicate 188 0 @ [0, 0, 0, 2, 0, 0, 0, 3] @ replicate 44 0"




section \<open>The transcoding tables are inverse permutations\<close>

lemma a2e_e2a_all: "list_all (\<lambda>n. a2e ! unat (e2a ! n) = of_nat n \<and> (e2a ! n = 0 \<longleftrightarrow> n = 0)) [0..<256]"
  by code_simp

lemma e2a_a2e_all: "list_all (\<lambda>n. e2a ! unat (a2e ! n) = of_nat n \<and> (a2e ! n = 0 \<longleftrightarrow> n = 0)) [0..<256]"
  by code_simp

lemma byte_index: "unat (c::byte) \<in> set [0..<256]"
  using unsigned_less[of c, where 'a=nat] by simp

lemma a2e_e2a: "a2e ! unat (e2a ! unat (c::byte)) = c"
  and e2a_zero_iff: "e2a ! unat c = 0 \<longleftrightarrow> c = 0"
proof -
  have "a2e ! unat (e2a ! unat c) = of_nat (unat c) \<and> (e2a ! unat c = 0 \<longleftrightarrow> unat c = 0)"
    using a2e_e2a_all byte_index[of c] unfolding list_all_iff by blast
  then show "a2e ! unat (e2a ! unat c) = c" and "e2a ! unat c = 0 \<longleftrightarrow> c = 0"
    by (simp_all add: unat_eq_0)
qed

lemma e2a_a2e: "e2a ! unat (a2e ! unat (c::byte)) = c"
  and a2e_zero_iff: "a2e ! unat c = 0 \<longleftrightarrow> c = 0"
proof -
  have "e2a ! unat (a2e ! unat c) = of_nat (unat c) \<and> (a2e ! unat c = 0 \<longleftrightarrow> unat c = 0)"
    using e2a_a2e_all byte_index[of c] unfolding list_all_iff by blast
  then show "e2a ! unat (a2e ! unat c) = c" and "a2e ! unat c = 0 \<longleftrightarrow> c = 0"
    by (simp_all add: unat_eq_0)
qed

lemma ebcdic2ascii_cstring:
  "0 \<notin> set pre \<Longrightarrow> ebcdic2ascii (pre @ 0 # rest) = Some (map (\<lambda>c. e2a ! unat c) pre @ [0])"
  by (induction pre) auto

lemma ascii2ebcdic_cstring:
  "0 \<notin> set pre \<Longrightarrow> ascii2ebcdic (pre @ 0 # rest) = Some (map (\<lambda>c. a2e ! unat c) pre @ [0])"
  by (induction pre) auto

lemma first_zero_split:
  assumes "k < length buf" "buf ! k = 0" "\<forall>i<k. buf ! i \<noteq> 0"
  shows "buf = take k buf @ 0 # drop (Suc k) buf \<and> 0 \<notin> set (take k buf)"
proof
  show "buf = take k buf @ 0 # drop (Suc k) buf"
    using assms(1,2) by (metis id_take_nth_drop)
  show "0 \<notin> set (take k buf)"
    using assms(1,3) by (auto simp: in_set_conv_nth)
qed

lemma ascii2ebcdic_Some_shape:
  "ascii2ebcdic s = Some buf \<Longrightarrow>
     \<exists>pre::byte list. buf = map (\<lambda>c. a2e ! unat c) pre @ [0] \<and> 0 \<notin> set pre"
proof (induction s arbitrary: buf)
  case Nil
  then show ?case by simp
next
  case (Cons c cs)
  show ?case
  proof (cases "c = 0")
    case True
    with Cons.prems have "buf = [0]" by simp
    then show ?thesis by (intro exI[of _ "[]"]) simp
  next
    case False
    with Cons.prems obtain b where b: "ascii2ebcdic cs = Some b" "buf = (a2e ! unat c) # b"
      by auto
    from Cons.IH[OF b(1)] obtain pre :: "byte list" where "b = map (\<lambda>c. a2e ! unat c) pre @ [0]" "0 \<notin> set pre"
      by blast
    with b(2) False show ?thesis by (intro exI[of _ "c # pre"]) simp
  qed
qed

text \<open>
  C9. \<^verbatim>\<open>ebcdic2ascii\<close> and \<^verbatim>\<open>ascii2ebcdic\<close> stop at the first zero byte: when the first
  zero byte of the input is at position \<open>k\<close>, the output is the table image of the first
  \<open>k\<close> bytes followed by one zero byte at position \<open>k\<close>. The result mentions \<open>take k buf\<close>
  only, so the bytes after position \<open>k\<close> have no effect, and no fixed length of 3200 bytes
  is involved.
\<close>

theorem transcode_first_zero:
  assumes "k < length buf" "buf ! k = 0" "\<forall>i<k. buf ! i \<noteq> 0"
  shows "ebcdic2ascii buf = Some (map (\<lambda>c. e2a ! unat c) (take k buf) @ [0]) \<and>
         ascii2ebcdic buf = Some (map (\<lambda>c. a2e ! unat c) (take k buf) @ [0])"
proof -
  from first_zero_split[OF assms] have s: "buf = take k buf @ 0 # drop (Suc k) buf"
    and z: "0 \<notin> set (take k buf)" by blast+
  show ?thesis
    using ebcdic2ascii_cstring[OF z, of "drop (Suc k) buf"]
          ascii2ebcdic_cstring[OF z, of "drop (Suc k) buf"] s by simp
qed

theorem transcode_first_zero_witness:
  "ebcdic2ascii [0xC1, 0x40, 0, 0xC2] = Some [0x41, 0x20, 0] \<and>
   ascii2ebcdic [0xC1, 0x40, 0, 0xC2] = Some [0x77, 0x7C, 0]"
proof -
  let ?buf = "[0xC1, 0x40, 0, 0xC2] :: byte list"
  have h1: "2 < length ?buf" by simp
  have h2: "?buf ! 2 = 0" by simp
  have h3: "\<forall>i<2. ?buf ! i \<noteq> 0"
  proof (intro allI impI)
    fix i :: nat assume "i < 2"
    then have "i = 0 \<or> i = 1" by arith
    then show "?buf ! i \<noteq> 0" by auto
  qed
  have e: "map (\<lambda>c. e2a ! unat c) (take 2 ?buf) = [0x41, 0x20]"
          "map (\<lambda>c. a2e ! unat c) (take 2 ?buf) = [0x77, 0x7C]"
    by code_simp+
  show ?thesis using transcode_first_zero[OF h1 h2 h3] unfolding e by simp
qed

text \<open>
  C8. Every buffer that \<^verbatim>\<open>ascii2ebcdic\<close> can produce is a fixed point of
  \<^verbatim>\<open>ebcdic2ascii\<close> followed by \<^verbatim>\<open>ascii2ebcdic\<close>. It holds for every zero-terminated input
  \<open>s\<close>, because the two tables are inverse permutations of all 256 byte values that fix 0.
\<close>

theorem ebcdic_roundtrip:
  assumes "ascii2ebcdic s = Some buf"
  shows "Option.bind (ebcdic2ascii buf) ascii2ebcdic = Some buf"
proof -
  from ascii2ebcdic_Some_shape[OF assms] obtain pre :: "byte list"
    where buf: "buf = map (\<lambda>c. a2e ! unat c) pre @ [0]" and pre: "0 \<notin> set pre" by blast
  let ?e = "map (\<lambda>c. a2e ! unat c) pre"
  have ze: "0 \<notin> set ?e" using pre by (auto simp: a2e_zero_iff)
  have 1: "ebcdic2ascii buf = Some (map (\<lambda>c. e2a ! unat c) ?e @ [0])"
    using ebcdic2ascii_cstring[OF ze, of "[]"] buf by simp
  have za: "0 \<notin> set (map (\<lambda>c. e2a ! unat c) ?e)" using ze by (auto simp: e2a_zero_iff)
  have 2: "ascii2ebcdic (map (\<lambda>c. e2a ! unat c) ?e @ [0])
             = Some (map (\<lambda>c. a2e ! unat c) (map (\<lambda>c. e2a ! unat c) ?e) @ [0])"
    using ascii2ebcdic_cstring[OF za, of "[]"] by simp
  have 3: "map (\<lambda>c. a2e ! unat c) (map (\<lambda>c. e2a ! unat c) ?e) = ?e"
    by (simp add: a2e_e2a o_def)
  show ?thesis using 1 2 3 buf by simp
qed

theorem ebcdic_roundtrip_witness:
  "ascii2ebcdic [0x41, 0x20, 0] = Some [0xC1, 0x40, 0] \<and>
   Option.bind (ebcdic2ascii [0xC1, 0x40, 0]) ascii2ebcdic = Some [0xC1, 0x40, 0]"
proof -
  have h: "ascii2ebcdic [0x41, 0x20, 0] = Some [0xC1, 0x40, 0]"
    by (simp add: a2e_def)
  show ?thesis using h ebcdic_roundtrip[OF h] by simp
qed

section \<open>Facts about 32-bit words and the renormalising loops\<close>

lemma bswap32_bswap32: "bswap32 (bswap32 x) = x"
proof (rule bit_word_eqI)
  fix n assume "n < LENGTH(32)"
  then have n: "n < 32" by simp
  consider "n < 8" | "8 \<le> n" "n < 16" | "16 \<le> n" "n < 24" | "24 \<le> n" "n < 32"
    using n by linarith
  then show "bit (bswap32 (bswap32 x)) n = bit x n"
  proof cases
    case 1
    then show ?thesis unfolding bswap32_def by (simp add: bit_simps)
  next
    case 2
    then have "8 + (n - 8) = n" "n - 8 < 8" "\<not> n < 8" "\<not> 16 \<le> n" "\<not> 24 \<le> n" by linarith+
    then show ?thesis unfolding bswap32_def using 2 by (simp add: bit_simps)
  next
    case 3
    then have "16 + (n - 16) = n" "n - 16 < 8" "\<not> n < 8" "8 \<le> n" "\<not> n - 8 < 8" "\<not> 24 \<le> n"
      "\<not> 24 \<le> n - 8" "\<not> 16 \<le> n - 8" "n - 8 < 32" by linarith+
    then show ?thesis unfolding bswap32_def using 3 by (simp add: bit_simps)
  next
    case 4
    then have "24 + (n - 24) = n" "n - 24 < 8" "\<not> n < 8" "8 \<le> n" "16 \<le> n" "\<not> n - 8 < 8"
      "\<not> n - 16 < 8" "\<not> 24 \<le> n - 8" "\<not> 24 \<le> n - 16" "\<not> 24 \<le> n - 24" "\<not> 16 \<le> n - 16"
      "\<not> 16 \<le> n - 24" "\<not> 8 \<le> n - 24" "n - 8 < 32" "n - 16 < 32" "n - 24 < 32" by linarith+
    then show ?thesis unfolding bswap32_def using 4 by (simp add: bit_simps)
  qed
qed

lemma u32_less_2p_bits:
  assumes "n < 32"
  shows "(w :: u32) < 2 ^ n \<longleftrightarrow> (\<forall>m\<ge>n. \<not> bit w m)"
proof -
  have "w < 2 ^ n \<longleftrightarrow> take_bit n w = w"
    using mask_eq_iff_w2p[of n w] assms by (simp add: word_size take_bit_eq_mask)
  also have "\<dots> \<longleftrightarrow> (\<forall>m\<ge>n. \<not> bit w m)"
  proof
    assume "take_bit n w = w"
    then have "\<And>m. bit w m = (m < n \<and> bit w m)" by (metis bit_take_bit_iff)
    then show "\<forall>m\<ge>n. \<not> bit w m" by (meson not_le)
  next
    assume a: "\<forall>m\<ge>n. \<not> bit w m"
    show "take_bit n w = w"
      by (rule bit_word_eqI) (use a in \<open>auto simp: bit_take_bit_iff not_le\<close>)
  qed
  finally show ?thesis .
qed

lemma u32_lt_2p31: "(fr :: u32) < 0x80000000 \<longleftrightarrow> (\<forall>m\<ge>31. \<not> bit fr m)"
  using u32_less_2p_bits[of 31 fr] by simp

lemma u32_lt_2p28: "(fr :: u32) < 0x10000000 \<longleftrightarrow> (\<forall>m\<ge>28. \<not> bit fr m)"
  using u32_less_2p_bits[of 28 fr] by simp

lemma bit_shl1: "bit (push_bit 1 (fr :: u32)) j \<longleftrightarrow> 1 \<le> j \<and> j < 32 \<and> bit fr (j - 1)"
  by (auto simp only: bit_push_bit_iff dest: bit_imp_le_length) (simp_all add: bit_simps)

lemma ibm2ieee_renormalize_steps:
  "k < 32 \<Longrightarrow> bit fr (31 - k) \<Longrightarrow> (\<forall>j. 31 - k < j \<longrightarrow> \<not> bit fr j) \<Longrightarrow>
     ibm2ieee_renormalize e fr = Some (e - int k, push_bit k fr)"
proof (induction k arbitrary: e fr)
  case 0
  then have "\<not> fr < 0x80000000" unfolding u32_lt_2p31 by auto
  then show ?case
    by (subst ibm2ieee_renormalize.simps) simp
next
  case (Suc k)
  have nb: "fr < 0x80000000" unfolding u32_lt_2p31 using Suc.prems by simp
  have "31 - k - 1 = 31 - Suc k" "1 \<le> 31 - k" "31 - k < 32" using Suc.prems(1) by linarith+
  then have b: "bit (push_bit 1 fr) (31 - k)"
    using Suc.prems(2) unfolding bit_shl1 by simp
  have z: "\<forall>j. 31 - k < j \<longrightarrow> \<not> bit (push_bit 1 fr) j"
  proof (intro allI impI)
    fix j assume j: "31 - k < j"
    then have "31 - Suc k < j - 1" using Suc.prems(1) by linarith
    then have "\<not> bit fr (j - 1)" using Suc.prems(3) by blast
    then show "\<not> bit (push_bit 1 fr) j" unfolding bit_shl1 by simp
  qed
  have k: "k < 32" using Suc.prems(1) by simp
  have "ibm2ieee_renormalize e fr = ibm2ieee_renormalize (e - 1) (push_bit 1 fr)"
    by (subst ibm2ieee_renormalize.simps) (simp only: nb if_True)
  also have "\<dots> = Some (e - 1 - int k, push_bit k (push_bit 1 fr))"
    by (rule Suc.IH[OF k b z])
  also have "push_bit k (push_bit 1 fr) = push_bit (Suc k) fr"
    by (simp add: push_bit_eq_mult)
  finally show ?case by simp
qed

lemma bit_push_u32: "bit (push_bit n (w :: u32)) j \<longleftrightarrow> n \<le> j \<and> j < 32 \<and> bit w (j - n)"
  by (auto simp only: bit_push_bit_iff dest: bit_imp_le_length) (simp_all add: bit_simps)

lemma bit_drop_u32: "bit (drop_bit n (w :: u32)) j \<longleftrightarrow> bit w (n + j)"
  by (simp add: bit_drop_bit_eq)

lemma bit_woi_u32: "bit (word_of_int i :: u32) j \<longleftrightarrow> j < 32 \<and> bit i j"
  by (simp add: bit_word_of_int_iff)

lemma bit_u32_lt: "bit (w :: u32) j \<Longrightarrow> j < 32"
  using bit_imp_le_length[of w j] by simp

lemma bit_small_int: "0 \<le> (i::int) \<Longrightarrow> i < 2 ^ n \<Longrightarrow> bit i m \<Longrightarrow> m < n"
  by (metis bit_take_bit_iff take_bit_int_eq_self)

lemma and3_int: "(i::int) AND 3 = i mod 4"
proof -
  have "i AND 3 = take_bit 2 i" by (simp add: take_bit_eq_mask mask_eq_exp_minus_1)
  then show ?thesis by (simp add: take_bit_eq_mod)
qed

lemma shift_amount: "0 \<le> k \<Longrightarrow> k \<le> 3 \<Longrightarrow> nat ((- (4 * e - k)) AND 3) = nat (k::int)"
proof -
  assume k: "0 \<le> k" "k \<le> 3"
  have "- (4 * e - k) = k + 4 * (- e)" by simp
  then have "(- (4 * e - k)) mod 4 = (k + 4 * (- e)) mod 4" by simp
  also have "\<dots> = k mod 4" by (rule mod_mult_self2)
  also have "\<dots> = k" using k by simp
  finally show ?thesis unfolding and3_int by simp
qed

lemma exp_back: "0 \<le> k \<Longrightarrow> k \<le> 3 \<Longrightarrow> drop_bit 2 (4 * e - k + 3) = (e::int)"
  by (simp add: drop_bit_eq_div)

lemma shift_out_exponent: "push_bit 7 (push_bit 1 (x::u32)) = push_bit 8 x"
  by (simp add: push_bit_eq_mult)

lemma saved_exponent: "uint (drop_bit 25 (push_bit 1 (x::u32))) = uint (take_bit 7 (drop_bit 24 x))"
proof -
  have "drop_bit 25 (push_bit 1 x) = take_bit 7 (drop_bit 24 x)"
  proof (rule bit_word_eqI)
    fix n assume "n < LENGTH(32)"
    show "bit (drop_bit 25 (push_bit 1 x)) n = bit (take_bit 7 (drop_bit 24 x)) n"
      unfolding bit_drop_u32 bit_push_u32 bit_take_bit_iff
      by (auto simp: add.commute dest: bit_u32_lt)
  qed
  then show ?thesis by simp
qed

lemma ibm2ieee_plain:
  fixes x :: u32 and k :: nat
  defines "e \<equiv> uint (take_bit 7 (drop_bit 24 x))"
  assumes k: "k \<le> 3" and top: "bit x (23 - k)"
    and hi: "\<forall>j. 23 - k < j \<longrightarrow> j < 24 \<longrightarrow> \<not> bit x j"
    and lo: "1 \<le> 4 * e - 130 - int k" and up: "4 * e - 130 - int k \<le> 254"
  shows "ibm2ieee BigEndian x =
           Some (ibm2ieee_done (push_bit (9 + k) x) (4 * e - 130 - int k) (drop_bit 31 x))"
proof -
  have b31: "bit (push_bit 8 x) (31 - k)"
  proof -
    have "8 \<le> 31 - k" "31 - k < 32" "31 - k - 8 = 23 - k" using k by linarith+
    then show ?thesis unfolding bit_push_u32 using top by simp
  qed
  then have nz: "push_bit 8 x \<noteq> 0" by (metis bit_0_eq bot_apply bot_bool_def)
  have z: "\<forall>j. 31 - k < j \<longrightarrow> \<not> bit (push_bit 8 x) j"
  proof (intro allI impI)
    fix j assume j: "31 - k < j"
    show "\<not> bit (push_bit 8 x) j"
    proof (cases "j < 32")
      case True
      then have "23 - k < j - 8" "j - 8 < 24" using j k by linarith+
      then have "\<not> bit x (j - 8)" using hi by blast
      then show ?thesis unfolding bit_push_u32 by simp
    next
      case False
      then show ?thesis unfolding bit_push_u32 by simp
    qed
  qed
  have k32: "k < 32" using k by simp
  have r: "ibm2ieee_renormalize (push_bit 2 e - 130) (push_bit 8 x)
             = Some (4 * e - 130 - int k, push_bit k (push_bit 8 x))"
    using ibm2ieee_renormalize_steps[OF k32 b31 z, of "push_bit 2 e - 130"]
    by (simp add: push_bit_eq_mult)
  show ?thesis
    unfolding ibm2ieee_def Let_def ntohl_def endian.case shift_out_exponent saved_exponent e_def[symmetric]
    using nz r lo up by (simp add: push_bit_eq_mult power_add ac_simps)
qed

lemma bit_push_int: "bit (push_bit n (i::int)) j \<longleftrightarrow> n \<le> j \<and> bit i (j - n)"
  by (simp add: bit_push_bit_iff)

lemma bit_2p31: "bit (0x80000000 :: u32) n \<longleftrightarrow> n = 31"
proof -
  have "(0x80000000 :: u32) = 2 ^ 31" by simp
  then show ?thesis by (simp only: bit_exp_iff) auto
qed

lemma bit_ieee_word:
  fixes x :: u32
  assumes E: "0 \<le> E" "E < 256"
  shows "bit (ibm2ieee_done (push_bit (9 + k) x) E (drop_bit 31 x)) n \<longleftrightarrow>
           (n < 23 \<and> k \<le> n \<and> bit x (n - k)) \<or> (23 \<le> n \<and> n < 31 \<and> bit E (n - 23))
           \<or> (n = 31 \<and> bit x 31)"
proof -
  have a: "bit (drop_bit 9 (push_bit (9 + k) x)) n \<longleftrightarrow> n < 23 \<and> k \<le> n \<and> bit x (n - k)"
    unfolding bit_drop_u32 bit_push_u32 by auto
  have b: "bit (word_of_int (push_bit 23 E) :: u32) n \<longleftrightarrow> 23 \<le> n \<and> n < 31 \<and> bit E (n - 23)"
  proof -
    have "bit E (n - 23) \<Longrightarrow> n - 23 < 8" using bit_small_int[of E 8 "n - 23"] E by simp
    then show ?thesis unfolding bit_woi_u32 bit_push_int by auto
  qed
  have c: "bit (push_bit 31 (drop_bit 31 x)) n \<longleftrightarrow> n = 31 \<and> bit x 31"
    unfolding bit_drop_u32 bit_push_u32 by auto
  show ?thesis unfolding ibm2ieee_done_def bit_or_iff a b c by blast
qed

lemma bit_drop31: "bit (drop_bit 31 (w :: u32)) n \<longleftrightarrow> n = 0 \<and> bit w 31"
proof (cases "n = 0")
  case True
  then show ?thesis by (simp add: bit_drop_u32)
next
  case False
  then have "\<not> 31 + n < 32" by simp
  then have "\<not> bit w (31 + n)" using bit_u32_lt by blast
  then show ?thesis using False by (simp add: bit_drop_u32)
qed

lemma ieee2ibm_plain:
  fixes x :: u32 and k :: nat
  defines "e \<equiv> uint (take_bit 7 (drop_bit 24 x))"
  defines "E \<equiv> 4 * e - 130 - int k"
  defines "y \<equiv> ibm2ieee_done (push_bit (9 + k) x) E (drop_bit 31 x)"
  assumes k: "k \<le> 3" and top: "bit x (23 - k)"
    and hi: "\<forall>j. 23 - k < j \<longrightarrow> j < 24 \<longrightarrow> \<not> bit x j"
    and lo: "1 \<le> E" and up: "E \<le> 254"
  shows "ieee2ibm BigEndian y = Some x"
proof -
  have E: "0 \<le> E" "E < 256" using lo up by simp_all
  note ybit = bit_ieee_word[OF E, of k x, folded y_def]
  have Y1: "drop_bit 31 y = drop_bit 31 x"
    by (rule bit_word_eqI) (simp add: bit_drop31 ybit)
  have Y2: "uint (drop_bit 24 (push_bit 1 y)) = E"
  proof (rule bit_eqI)
    fix m
    have s: "bit E m \<Longrightarrow> m < 8" using bit_small_int[of E 8 m] E by simp
    have "bit (uint (drop_bit 24 (push_bit 1 y))) m \<longleftrightarrow> bit y (23 + m) \<and> m < 8"
      unfolding bit_uint_iff bit_drop_u32 bit_push_u32 by auto
    also have "\<dots> \<longleftrightarrow> bit E m" unfolding ybit using s by auto
    finally show "bit (uint (drop_bit 24 (push_bit 1 y))) m = bit E m" .
  qed
  have Y3: "drop_bit 1 (push_bit 8 (push_bit 1 y)) OR 0x80000000 = push_bit (8 + k) x"
  proof (rule bit_word_eqI)
    fix n assume "n < LENGTH(32)"
    then have n: "n < 32" by simp
    show "bit (drop_bit 1 (push_bit 8 (push_bit 1 y)) OR 0x80000000) n = bit (push_bit (8 + k) x) n"
    proof (cases "n = 31")
      case True
      have "31 - (8 + k) = 23 - k" by simp
      then show ?thesis using True top k unfolding bit_or_iff bit_2p31 bit_push_u32 by simp
    next
      case False
      then have n31: "n < 31" using n by simp
      have "bit (drop_bit 1 (push_bit 8 (push_bit 1 y))) n \<longleftrightarrow> 8 \<le> n \<and> bit y (n - 8)"
        unfolding bit_drop_u32 bit_push_u32 using n31 by auto
      also have "\<dots> \<longleftrightarrow> 8 + k \<le> n \<and> bit x (n - (8 + k))"
        unfolding ybit using n31 by auto
      finally show ?thesis unfolding bit_or_iff bit_2p31 bit_push_u32 using False n by simp
    qed
  qed
  have Y4: "drop_bit k (push_bit (8 + k) x) = push_bit 8 x"
  proof (rule bit_word_eqI)
    fix n assume "n < LENGTH(32)"
    then have n: "n < 32" by simp
    show "bit (drop_bit k (push_bit (8 + k) x)) n = bit (push_bit 8 x) n"
    proof (cases "k + n < 32")
      case True
      then show ?thesis unfolding bit_drop_u32 bit_push_u32 using n by auto
    next
      case False
      then have "23 - k < n - 8" "n - 8 < 24" using n k by linarith+
      then have "\<not> bit x (n - 8)" using hi by blast
      then show ?thesis unfolding bit_drop_u32 bit_push_u32 using False by simp
    qed
  qed
  have Y5: "\<not> push_bit 8 x < 0x10000000"
  proof -
    have "8 \<le> 31 - k" "31 - k < 32" "31 - k - 8 = 23 - k" "28 \<le> 31 - k" using k by linarith+
    then have "bit (push_bit 8 x) (31 - k)" "28 \<le> 31 - k" unfolding bit_push_u32 using top by simp_all
    then show ?thesis unfolding u32_lt_2p28 by blast
  qed
  have Y6: "drop_bit 8 (push_bit 8 x) OR word_of_int (push_bit 24 e) OR push_bit 31 (drop_bit 31 x) = x"
  proof (rule bit_word_eqI)
    fix n assume "n < LENGTH(32)"
    then have n: "n < 32" by simp
    have a: "bit (drop_bit 8 (push_bit 8 x)) n \<longleftrightarrow> n < 24 \<and> bit x n"
      unfolding bit_drop_u32 bit_push_u32 by auto
    have b: "bit (word_of_int (push_bit 24 e) :: u32) n \<longleftrightarrow> 24 \<le> n \<and> n < 31 \<and> bit x n"
      unfolding bit_woi_u32 bit_push_int e_def bit_uint_iff bit_take_bit_iff bit_drop_u32
      using n by auto
    have c: "bit (push_bit 31 (drop_bit 31 x)) n \<longleftrightarrow> n = 31 \<and> bit x 31"
      unfolding bit_drop_u32 bit_push_u32 by auto
    show "bit (drop_bit 8 (push_bit 8 x) OR word_of_int (push_bit 24 e) OR push_bit 31 (drop_bit 31 x)) n = bit x n"
      unfolding bit_or_iff a b c using n by (cases "n = 31") auto
  qed
  have sh: "nat ((- (E + 130)) AND 3) = k"
    using shift_amount[of "int k" e] k unfolding E_def by simp
  have eb: "drop_bit 2 (E + 130 + 3) = e"
    using exp_back[of "int k" e] k unfolding E_def by simp
  have r: "ieee2ibm_renormalize e (push_bit 8 x) = Some (e, push_bit 8 x)"
    by (subst ieee2ibm_renormalize.simps) (simp only: Y5 if_False)
  have ne: "E \<noteq> 255" "\<not> (E = 0 \<and> push_bit 8 (push_bit 1 y) = 0)" "0 < E" using lo up by simp_all
  show ?thesis
    unfolding ieee2ibm_def Let_def Y1 Y2
    apply (simp only: ne if_False if_True Y3)
    apply (simp only: ieee2ibm_adjust_def Let_def sh Y4 eb r option.case prod.case)
    apply (simp only: ieee2ibm_done_def htonl_def endian.case Y6)
    done
qed

lemma ibm2ieee_host: "ibm2ieee h m = ibm2ieee BigEndian (ntohl h m)"
  by (simp add: ibm2ieee_def ntohl_def)

lemma ieee2ibm_host: "ieee2ibm h y = map_option (htonl h) (ieee2ibm BigEndian y)"
  by (simp add: ieee2ibm_def ieee2ibm_adjust_def ieee2ibm_done_def htonl_def Let_def
           split: option.splits)

lemma htonl_ntohl: "htonl h (ntohl h m) = m"
  by (cases h) (simp_all add: htonl_def ntohl_def bswap32_bswap32)

lemma ibm_leading_digit:
  fixes x :: u32
  assumes "2 ^ n \<le> ibm_fraction x" "n < 24"
  shows "\<exists>m. n \<le> m \<and> m < 24 \<and> bit x m"
proof -
  have "\<not> take_bit 24 x < 2 ^ n" using assms(1) by (simp add: ibm_fraction_def not_less)
  then obtain m where "n \<le> m" "bit (take_bit 24 x) m"
    using u32_less_2p_bits[of n "take_bit 24 x"] assms(2) by auto
  then show ?thesis by (auto simp: bit_take_bit_iff)
qed

lemma ibm_leading_bit:
  fixes x :: u32
  assumes "n \<le> m" "m < 24" "bit x m"
  shows "\<exists>k. k \<le> 23 - n \<and> bit x (23 - k) \<and> (\<forall>j. 23 - k < j \<longrightarrow> j < 24 \<longrightarrow> \<not> bit x j)"
proof -
  define P where "P k \<longleftrightarrow> bit x (23 - k)" for k
  have "P (23 - m)" using assms by (simp add: P_def)
  define k where "k = (LEAST k. P k)"
  have Pk: "P k" unfolding k_def using \<open>P (23 - m)\<close> by (rule LeastI)
  have kle: "k \<le> 23 - m" unfolding k_def using \<open>P (23 - m)\<close> by (rule Least_le)
  have "\<forall>j. 23 - k < j \<longrightarrow> j < 24 \<longrightarrow> \<not> bit x j"
  proof (intro allI impI)
    fix j assume j: "23 - k < j" "j < 24"
    then have "23 - j < k" by linarith
    then have "\<not> P (23 - j)" unfolding k_def by (rule not_less_Least)
    moreover have "23 - (23 - j) = j" using j by linarith
    ultimately show "\<not> bit x j" by (simp add: P_def)
  qed
  moreover have "k \<le> 23 - n" using kle assms(1) by linarith
  ultimately show ?thesis using Pk unfolding P_def by blast
qed

lemma ibm_roundtrip_big_endian:
  fixes x :: u32
  assumes "x = 0 \<or> x = 0x80000000 \<or> ibm_in_ieee_normal_range x"
  shows "\<exists>y. ibm2ieee BigEndian x = Some y \<and> ieee2ibm BigEndian y = Some x"
proof -
  consider "x = 0" | "x = 0x80000000" | "ibm_in_ieee_normal_range x" using assms by blast
  then show ?thesis
  proof cases
    case 1
    have "ibm2ieee BigEndian 0 = Some 0" "ieee2ibm BigEndian 0 = Some 0" by code_simp+
    then show ?thesis using 1 by simp
  next
    case 2
    have "ibm2ieee BigEndian 0x80000000 = Some 0x80000000"
         "ieee2ibm BigEndian 0x80000000 = Some 0x80000000" by code_simp+
    then show ?thesis using 2 by simp
  next
    case 3
    define e where "e = uint (take_bit 7 (drop_bit 24 x))"
    have f20: "2 ^ 20 \<le> ibm_fraction x"
      and rng: "34 \<le> e \<and> e \<le> 96 \<or> e = 33 \<and> 2 ^ 22 \<le> ibm_fraction x"
      using 3 by (simp_all add: ibm_in_ieee_normal_range_def ibm_exponent_def e_def)
    have "\<exists>k. k \<le> 3 \<and> bit x (23 - k) \<and> (\<forall>j. 23 - k < j \<longrightarrow> j < 24 \<longrightarrow> \<not> bit x j)
             \<and> 1 \<le> 4 * e - 130 - int k \<and> 4 * e - 130 - int k \<le> 254"
    proof (cases "34 \<le> e \<and> e \<le> 96")
      case True
      obtain m where "20 \<le> m" "m < 24" "bit x m" using ibm_leading_digit[OF f20] by auto
      from ibm_leading_bit[OF this] obtain k where
        "k \<le> 3" "bit x (23 - k)" "\<forall>j. 23 - k < j \<longrightarrow> j < 24 \<longrightarrow> \<not> bit x j" by auto
      then show ?thesis using True by (intro exI[of _ k]) simp
    next
      case False
      then have e33: "e = 33" and f22: "2 ^ 22 \<le> ibm_fraction x" using rng by auto
      obtain m where "22 \<le> m" "m < 24" "bit x m" using ibm_leading_digit[OF f22] by auto
      from ibm_leading_bit[OF this] obtain k where
        "k \<le> 1" "bit x (23 - k)" "\<forall>j. 23 - k < j \<longrightarrow> j < 24 \<longrightarrow> \<not> bit x j" by auto
      then show ?thesis using e33 by (intro exI[of _ k]) simp
    qed
    then obtain k where k: "k \<le> 3" "bit x (23 - k)" "\<forall>j. 23 - k < j \<longrightarrow> j < 24 \<longrightarrow> \<not> bit x j"
      "1 \<le> 4 * e - 130 - int k" "4 * e - 130 - int k \<le> 254" by blast
    show ?thesis
      using ibm2ieee_plain[OF k(1,2,3), folded e_def, OF k(4,5)]
            ieee2ibm_plain[OF k(1,2,3), folded e_def, OF k(4,5)] by simp
  qed
qed

text \<open>
  C1, as amended. Decoding an IBM pattern and encoding the result gives the pattern back
  when the pattern is a zero (\<open>0\<close> or \<open>0x80000000\<close>) or a normalised number inside the range
  of the normal IEEE singles. Here \<open>m\<close> is the word as it lies in memory and \<open>x\<close> the
  big-endian pattern that \<^verbatim>\<open>ntohl\<close> reads from it, on either host byte order.
\<close>

theorem ibm_ieee_roundtrip:
  assumes "x = ntohl h m"
    and "x = 0 \<or> x = 0x80000000 \<or> ibm_in_ieee_normal_range x"
  shows "Option.bind (ibm2ieee h m) (ieee2ibm h) = Some m"
proof -
  from ibm_roundtrip_big_endian[OF assms(2)] obtain y
    where "ibm2ieee BigEndian x = Some y" "ieee2ibm BigEndian y = Some x" by blast
  then show ?thesis
    using assms(1) by (simp add: ibm2ieee_host[of h m] ieee2ibm_host[of h y] htonl_ntohl)
qed

theorem ibm_ieee_roundtrip_witness:
  "ibm_in_ieee_normal_range (ntohl LittleEndian 0x00001041)
   \<and> Option.bind (ibm2ieee LittleEndian 0x00001041) (ieee2ibm LittleEndian) = Some 0x00001041
   \<and> Option.bind (ibm2ieee BigEndian 0x80000000) (ieee2ibm BigEndian) = Some 0x80000000"
proof -
  have h: "ibm_in_ieee_normal_range (ntohl LittleEndian 0x00001041)" by code_simp
  have z: "ntohl BigEndian 0x80000000 = 0x80000000" by (simp add: ntohl_def)
  show ?thesis
    using h ibm_ieee_roundtrip[OF refl, of LittleEndian "0x00001041"]
          ibm_ieee_roundtrip[OF z[symmetric]]
    by simp
qed

text \<open>
  The round trip is not exact on every pattern. It fails on a zero fraction under a
  non-zero exponent (\<open>0x41000000\<close> comes back as \<open>0\<close>), on an unnormalised fraction
  (\<open>0x42010000\<close> comes back normalised, as \<open>0x41100000\<close>), above the IEEE range
  (\<open>0x7F100000\<close> comes back as the largest pattern \<open>0x7FFFFFFF\<close>) and below it
  (\<open>0x00100000\<close> comes back as \<open>0\<close>).
\<close>

theorem ibm_ieee_roundtrip_counterexample:
  "Option.bind (ibm2ieee BigEndian 0x41000000) (ieee2ibm BigEndian) \<noteq> Some 0x41000000
   \<and> Option.bind (ibm2ieee BigEndian 0x42010000) (ieee2ibm BigEndian) \<noteq> Some 0x42010000
   \<and> Option.bind (ibm2ieee BigEndian 0x7F100000) (ieee2ibm BigEndian) \<noteq> Some 0x7F100000
   \<and> Option.bind (ibm2ieee BigEndian 0x00100000) (ieee2ibm BigEndian) \<noteq> Some 0x00100000"
  by code_simp

section \<open>Conversion to native floats\<close>

lemma u32_leading_bit:
  fixes w :: u32
  assumes "w \<noteq> 0"
  shows "\<exists>k<32. bit w (31 - k) \<and> (\<forall>j. 31 - k < j \<longrightarrow> \<not> bit w j)"
proof -
  obtain n where n: "bit w n" using assms by (auto simp: bit_eq_iff)
  then have n32: "n < 32" by (rule bit_u32_lt)
  define P where "P k \<longleftrightarrow> bit w (31 - k)" for k
  have P0: "P (31 - n)" using n n32 by (simp add: P_def)
  define k where "k = (LEAST k. P k)"
  have Pk: "P k" unfolding k_def using P0 by (rule LeastI)
  have kle: "k \<le> 31 - n" unfolding k_def using P0 by (rule Least_le)
  have "\<forall>j. 31 - k < j \<longrightarrow> \<not> bit w j"
  proof (intro allI impI)
    fix j assume j: "31 - k < j"
    show "\<not> bit w j"
    proof (cases "j < 32")
      case True
      then have "31 - j < k" using j by linarith
      then have "\<not> P (31 - j)" unfolding k_def by (rule not_less_Least)
      moreover have "31 - (31 - j) = j" using True by linarith
      ultimately show ?thesis by (simp add: P_def)
    next
      case False
      then show ?thesis using bit_u32_lt by blast
    qed
  qed
  moreover have "k < 32" using kle by linarith
  ultimately show ?thesis using Pk unfolding P_def by blast
qed

lemma ibm2ieee_renormalize_total:
  assumes "fr \<noteq> 0"
  shows "\<exists>e' fr'. ibm2ieee_renormalize e fr = Some (e', fr')"
proof -
  from u32_leading_bit[OF assms] obtain k where
    "k < 32" "bit fr (31 - k)" "\<forall>j. 31 - k < j \<longrightarrow> \<not> bit fr j" by blast
  from ibm2ieee_renormalize_steps[OF this] show ?thesis by blast
qed

lemma ibm2ieee_total: "\<exists>y. ibm2ieee h m = Some y"
proof (cases "push_bit 7 (push_bit 1 (ntohl h m)) = 0")
  case True
  then show ?thesis by (simp add: ibm2ieee_def Let_def)
next
  case False
  from ibm2ieee_renormalize_total[OF False] obtain e' fr' where
    "ibm2ieee_renormalize (push_bit 2 (uint (drop_bit 25 (push_bit 1 (ntohl h m)))) - 130)
       (push_bit 7 (push_bit 1 (ntohl h m))) = Some (e', fr')" by blast
  then show ?thesis using False by (simp add: ibm2ieee_def Let_def)
qed

lemma to_native_loop_result:
  assumes "\<And>u. \<exists>v. conv u = Some v"
  shows "n \<le> length buf \<Longrightarrow>
         \<exists>out. to_native_loop conv (int n) buf = Some (out @ drop n buf) \<and> length out = n
              \<and> (\<forall>i<n. conv (buf ! i) = Some (out ! i))"
proof (induction buf arbitrary: n)
  case Nil
  then show ?case by simp
next
  case (Cons u buf)
  show ?case
  proof (cases n)
    case 0
    then show ?thesis by simp
  next
    case (Suc m)
    then have m: "m \<le> length buf" using Cons.prems by simp
    from Cons.IH[OF m] obtain out where out:
      "to_native_loop conv (int m) buf = Some (out @ drop m buf)" "length out = m"
      "\<forall>i<m. conv (buf ! i) = Some (out ! i)" by blast
    obtain v where v: "conv u = Some v" using assms by blast
    have "int n - 1 = int m" using Suc by simp
    then have "to_native_loop conv (int n) (u # buf) = Some ((v # out) @ drop n (u # buf))"
      using Suc v out(1) by simp
    moreover have "length (v # out) = n" using out(2) Suc by simp
    moreover have "\<forall>i<n. conv ((u # buf) ! i) = Some ((v # out) ! i)"
      using out(3) v Suc by (auto simp: nth_Cons split: nat.splits)
    ultimately show ?thesis by blast
  qed
qed

text \<open>
  C7, as amended. \<^verbatim>\<open>segy_to_native\<close> converts the first \<^verbatim>\<open>size\<close> elements and leaves the rest:
  by the byte swap \<^verbatim>\<open>ntohl\<close> when the format is 5, and by \<^verbatim>\<open>ibm2ieee\<close> for every other format
  code, the codes 2, 3, 4 and 8 among them. There is no branch that passes the samples
  through.
\<close>

theorem segy_to_native_formats:
  assumes "0 \<le> sz" "nat sz \<le> length buf"
  shows "\<exists>out. segy_to_native h format sz buf = Some (SEGY_OK, out @ drop (nat sz) buf)
           \<and> length out = nat sz
           \<and> (\<forall>i<nat sz. if format = IEEE_FLOAT_4_BYTE then out ! i = ntohl h (buf ! i)
                           else ibm2ieee h (buf ! i) = Some (out ! i))"
proof (cases "format = IEEE_FLOAT_4_BYTE")
  case True
  have "\<And>u. \<exists>v. (\<lambda>u. Some (ntohl h u)) u = Some v" by simp
  from to_native_loop_result[of "\<lambda>u. Some (ntohl h u)", OF this assms(2)]
  show ?thesis using True assms(1) by (auto simp: segy_to_native_def)
next
  case False
  from to_native_loop_result[of "ibm2ieee h", OF ibm2ieee_total assms(2)]
  show ?thesis using False assms(1) by (auto simp: segy_to_native_def)
qed

theorem segy_to_native_formats_witness:
  "\<exists>out. segy_to_native LittleEndian 2 1 [0x00001041, 7] = Some (SEGY_OK, out @ [7])
     \<and> length out = 1 \<and> ibm2ieee LittleEndian 0x00001041 = Some (out ! 0)"
  using segy_to_native_formats[of 1 "[0x00001041, 7]" LittleEndian 2]
  by (simp add: IEEE_FLOAT_4_BYTE_def)

text \<open>
  Under each of the format codes 2, 3, 4 and 8 the word \<open>0x41100000\<close> is not left as it
  is: it is decoded as an IBM float.
\<close>

theorem segy_to_native_passthrough_counterexample:
  "segy_to_native BigEndian 2 1 [0x41100000] \<noteq> Some (SEGY_OK, [0x41100000])
   \<and> segy_to_native BigEndian 3 1 [0x41100000] \<noteq> Some (SEGY_OK, [0x41100000])
   \<and> segy_to_native BigEndian 4 1 [0x41100000] \<noteq> Some (SEGY_OK, [0x41100000])
   \<and> segy_to_native BigEndian 8 1 [0x41100000] \<noteq> Some (SEGY_OK, [0x41100000])"
  by code_simp

section \<open>The file handle: seeking and refused writes\<close>


lemma same_file_trans: "same_file f g \<Longrightarrow> same_file g h \<Longrightarrow> same_file f h"
  by (simp add: same_file_def)

lemma seek_product_bounds:
  fixes t b :: u32
  shows "- (2 ^ 63) + 2 ^ 31 \<le> sint t * uint b" "sint t * uint b \<le> 2 ^ 63 - 2 ^ 31"
proof -
  have t: "- (2 ^ 31) \<le> sint t" "sint t < 2 ^ 31"
    using sint_ge[of t] sint_lt[of t] by simp_all
  have b: "0 \<le> uint b" "uint b \<le> 2 ^ 32 - 1"
    using uint_lt2p[of b] by simp_all
  have "- (2 ^ 31) * uint b \<le> sint t * uint b"
    using t(1) b(1) by (intro mult_right_mono) simp_all
  moreover have "- (2 ^ 31) * (2 ^ 32 - 1) \<le> - (2 ^ 31) * uint b"
    using b(2) by simp
  ultimately show "- (2 ^ 63) + 2 ^ 31 \<le> sint t * uint b" by simp
  have "sint t * uint b \<le> (2 ^ 31 - 1) * uint b"
    using t(2) b(1) by (intro mult_right_mono) simp_all
  moreover have "(2 ^ 31 - 1) * uint b \<le> (2 ^ 31 - 1) * (2 ^ 32 - 1)"
    using b(2) by (intro mult_left_mono) simp_all
  ultimately show "sint t * uint b \<le> 2 ^ 63 - 2 ^ 31" by simp
qed

lemma seek_long_range:
  fixes t b :: u32
  assumes "0 \<le> trace0" "trace0 < 2 ^ 31"
  shows "long_range (trace0 + sint t * uint b) = Some (trace0 + sint t * uint b)"
  using seek_product_bounds[of t b] assms by (simp add: long_range_def)

lemma segy_seek_same_file:
  "segy_seek f t trace0 bsize = Some (e, f') \<Longrightarrow> same_file f f'"
  by (auto simp: segy_seek_def same_file_def fseek_set_def Let_def long_range_def
           split: if_splits)

lemma segy_seek_defined:
  assumes "0 \<le> trace0" "trace0 < 2 ^ 31"
  shows "\<exists>e f'. segy_seek f (sint (t::u32)) trace0 bsize = Some (e, f')"
  using seek_long_range[OF assms, of t "bsize + word_of_int SEGY_TRACE_HEADER_SIZE"]
  by (auto simp: segy_seek_def Let_def split: prod.splits)

lemma fwrite_readonly: "\<not> writable s \<Longrightarrow> fwrite bs s = (0, s)"
  by (simp add: fwrite_def)

lemma segy_seek_buffered:
  assumes "\<not> addr f" "segy_seek f t trace0 bsize = Some (e, f')"
  shows "\<not> addr f' \<and> contents (fp f') = contents (fp f) \<and> writable (fp f') = writable (fp f)
         \<and> (e = SEGY_OK \<or> e = SEGY_FSEEK_ERROR)"
  using assms
  by (auto simp: segy_seek_def fseek_set_def Let_def long_range_def split: if_splits)

lemma write_traceheader_readonly:
  assumes ro: "\<not> addr f" "\<not> writable (fp f)"
    and args: "0 \<le> trace0" "trace0 < 2 ^ 31" "240 \<le> length buf"
  shows "\<exists>e f'. segy_write_traceheader f traceno buf trace0 trace_bsize = Some (e, f')
           \<and> e \<noteq> SEGY_OK \<and> contents (fp f') = contents (fp f)"
proof -
  obtain e1 f1 where s: "segy_seek f (sint traceno) trace0 trace_bsize = Some (e1, f1)"
    using segy_seek_defined[OF args(1,2)] by blast
  note b = segy_seek_buffered[OF ro(1) s]
  show ?thesis
    using s b ro(2) args(3)
    by (auto simp: segy_write_traceheader_def buffer_def SEGY_TRACE_HEADER_SIZE_def
                   fwrite_readonly)
qed

lemma writetrace_readonly:
  assumes ro: "\<not> addr f" "\<not> writable (fp f)"
    and args: "0 \<le> trace0" "trace0 < 2 ^ 31" "unat trace_bsize \<le> length buf"
  shows "\<exists>e f'. segy_writetrace f traceno buf trace0 trace_bsize = Some (e, f')
           \<and> (trace_bsize \<noteq> 0 \<longrightarrow> e \<noteq> SEGY_OK) \<and> contents (fp f') = contents (fp f)"
proof -
  obtain e1 f1 where s: "segy_seek f (sint traceno) trace0 trace_bsize = Some (e1, f1)"
    using segy_seek_defined[OF args(1,2)] by blast
  note b = segy_seek_buffered[OF ro(1) s]
  show ?thesis
    using s b ro(2) args(3)
    by (auto simp: segy_writetrace_def buffer_def skip_traceheader_def fseek_cur_def Let_def
                   fwrite_readonly unat_eq_0 split: if_splits)
qed

lemma write_binheader_readonly:
  assumes ro: "\<not> writable (fp f)" and args: "400 \<le> length buf"
  shows "\<exists>e f'. segy_write_binheader (Some f) buf = Some (e, Some f')
           \<and> e \<noteq> SEGY_OK \<and> contents (fp f') = contents (fp f)"
  using assms
  by (auto simp: segy_write_binheader_def buffer_def fseek_set_def fwrite_readonly
                 SEGY_TEXT_HEADER_SIZE_def SEGY_BINARY_HEADER_SIZE_def)

lemma write_textheader_readonly:
  assumes ro: "\<not> writable (fp f)"
    and args: "ascii2ebcdic buf = Some e" "length e \<le> length mbuf" "length mbuf = 3201"
  shows "\<exists>e f'. segy_write_textheader f p buf mbuf = Some (e, f')
           \<and> e \<noteq> SEGY_OK \<and> contents (fp f') = contents (fp f)"
  using assms
  by (auto simp: segy_write_textheader_def buffer_def fseek_set_def fwrite_readonly Let_def
                 SEGY_TEXT_HEADER_SIZE_def SEGY_BINARY_HEADER_SIZE_def)

lemma segy_open_rb:
  "segy_open (Some bytes) ''rb'' = Some f \<Longrightarrow>
     \<not> addr f \<and> \<not> writable (fp f) \<and> readable (fp f) \<and> contents (fp f) = bytes"
  by (auto simp: segy_open_def fopen_def)

text \<open>
  C6, as amended. No write path of \<^verbatim>\<open>segy.c\<close> looks at the stored mode. On a handle that
  is not mapped and whose stream is not open for writing, as \<^verbatim>\<open>segy_open\<close> gives it for the
  mode \<^verbatim>\<open>"rb"\<close>, the C library refuses the transfer: \<^verbatim>\<open>segy_write_traceheader\<close>,
  \<^verbatim>\<open>segy_write_binheader\<close> and \<^verbatim>\<open>segy_write_textheader\<close> return an error code, and so does
  \<^verbatim>\<open>segy_writetrace\<close> unless \<^verbatim>\<open>trace_bsize\<close> is 0; the bytes of the file stay as they are.
  The conditions on the arguments are those under which the calls are defined.
\<close>

theorem readonly_writes_refused:
  assumes "\<not> addr f" "\<not> writable (fp f)"
  shows "(0 \<le> trace0 \<and> trace0 < 2 ^ 31 \<and> 240 \<le> length hbuf \<longrightarrow>
            (\<exists>e f'. segy_write_traceheader f traceno hbuf trace0 trace_bsize = Some (e, f')
               \<and> e \<noteq> SEGY_OK \<and> contents (fp f') = contents (fp f)))
       \<and> (0 \<le> trace0 \<and> trace0 < 2 ^ 31 \<and> unat trace_bsize \<le> length tbuf \<longrightarrow>
            (\<exists>e f'. segy_writetrace f traceno tbuf trace0 trace_bsize = Some (e, f')
               \<and> (trace_bsize \<noteq> 0 \<longrightarrow> e \<noteq> SEGY_OK) \<and> contents (fp f') = contents (fp f)))
       \<and> (400 \<le> length bbuf \<longrightarrow>
            (\<exists>e f'. segy_write_binheader (Some f) bbuf = Some (e, Some f')
               \<and> e \<noteq> SEGY_OK \<and> contents (fp f') = contents (fp f)))
       \<and> (ascii2ebcdic ascii = Some ebcdic \<and> length ebcdic \<le> length mbuf \<and> length mbuf = 3201 \<longrightarrow>
            (\<exists>e f'. segy_write_textheader f p ascii mbuf = Some (e, f')
               \<and> e \<noteq> SEGY_OK \<and> contents (fp f') = contents (fp f)))"
  using write_traceheader_readonly[OF assms, of trace0 hbuf traceno trace_bsize]
        writetrace_readonly[OF assms, of trace0 trace_bsize tbuf traceno]
        write_binheader_readonly[OF assms(2), of bbuf]
        write_textheader_readonly[OF assms(2), of ascii ebcdic mbuf p]
  by blast

theorem readonly_writes_refused_witness:
  "(let f = the (segy_open (Some (replicate 240 1)) ''rb'') in
   \<not> addr f \<and> \<not> writable (fp f)
   \<and> (\<exists>e f'. segy_write_traceheader f 0 (replicate 240 7) 0 4 = Some (e, f')
       \<and> e \<noteq> SEGY_OK \<and> contents (fp f') = replicate 240 1)
   \<and> (\<exists>e f'. segy_writetrace f 0 [5, 5, 5, 5] 0 4 = Some (e, f')
       \<and> e \<noteq> SEGY_OK \<and> contents (fp f') = replicate 240 1)
   \<and> (\<exists>e f'. segy_write_binheader (Some f) (replicate 400 0) = Some (e, Some f')
       \<and> e \<noteq> SEGY_OK \<and> contents (fp f') = replicate 240 1)
   \<and> (\<exists>e f'. segy_write_textheader f 0 [0x41, 0] (replicate 3201 0) = Some (e, f')
       \<and> e \<noteq> SEGY_OK \<and> contents (fp f') = replicate 240 1))"
proof -
  define f where "f = the (segy_open (Some (replicate 240 1)) ''rb'')"
  have o: "segy_open (Some (replicate 240 1)) ''rb'' = Some f"
    by (simp add: f_def segy_open_def fopen_def)
  have h: "\<not> addr f" "\<not> writable (fp f)" and c: "contents (fp f) = replicate 240 1"
    using segy_open_rb[OF o] by simp_all
  have a: "ascii2ebcdic [0x41, 0] = Some [0xC1, 0]" by (simp add: a2e_def)
  show ?thesis
    unfolding Let_def f_def[symmetric]
    using readonly_writes_refused[OF h, of 0 "replicate 240 7" 0 4 "[5, 5, 5, 5]"
            "replicate 400 0" "[0x41, 0]" "[0xC1, 0]" "replicate 3201 0" 0] a c h
    by simp
qed

text \<open>
  Two calls on a handle opened with \<^verbatim>\<open>"rb"\<close> that return no error: \<^verbatim>\<open>segy_writetrace\<close> with
  a \<^verbatim>\<open>trace_bsize\<close> of 0 returns \<^verbatim>\<open>SEGY_OK\<close>, since \<^verbatim>\<open>fwrite\<close> reports the 0 bytes it was
  asked for; and after \<^verbatim>\<open>segy_mmap\<close> the header is copied into a mapping without write
  permission, which is no return at all.
\<close>

theorem readonly_writes_refused_counterexample:
  "map_option fst (segy_writetrace (the (segy_open (Some (replicate 240 1)) ''rb'')) 0 [] 0 0)
     = Some SEGY_OK
   \<and> segy_write_traceheader
        (snd (segy_mmap (the (segy_open (Some (replicate 240 1)) ''rb''))))
        0 (replicate 240 7) 0 0 = None"
  by code_simp

section \<open>Reading traces that lie inside the file\<close>

lemma header_size_no_wrap:
  assumes "unat (b::u32) + 240 < 2 ^ 32"
  shows "uint (b + word_of_int SEGY_TRACE_HEADER_SIZE) = int (unat b) + 240"
proof -
  have 1: "unat b + unat (240::u32) < 2 ^ LENGTH(32)" using assms by simp
  have "unat (b + 240) = unat b + unat (240::u32)"
    by (rule unat_add_lem[THEN iffD1, OF 1])
  then have "unat (b + 240) = unat b + 240" by simp
  then have "int (unat (b + 240)) = int (unat b) + 240" by simp
  then show ?thesis unfolding SEGY_TRACE_HEADER_SIZE_def uint_nat by simp
qed

lemma sint_small:
  assumes "unat (i::u32) < 2 ^ 31"
  shows "sint i = int (unat i)"
proof -
  have "int (unat i) < int (2 ^ 31)" using assms by (rule iffD2[OF of_nat_less_iff])
  then have u: "uint i < 2 ^ 31" by simp
  have "sint i = signed_take_bit 31 (uint i)" by (simp add: sint_uint)
  also have "\<dots> = uint i"
  proof (rule signed_take_bit_int_eq_self)
    have "0 \<le> uint i" by simp
    moreover have "- (2 ^ 31) \<le> (0::int)" by simp
    ultimately show "- (2 ^ 31) \<le> uint i" by (rule order_trans[rotated])
    show "uint i < 2 ^ 31" by (rule u)
  qed
  finally show ?thesis unfolding uint_nat .
qed

lemma trace_pos_Suc:
  "trace_pos trace0 bsize (Suc i) = trace_pos trace0 bsize i + 240 + unat bsize"
  by (simp add: trace_pos_def)

lemma seek_position:
  assumes tin: "trace_in_file bytes trace0 bsize i"
  shows "trace0 + sint i * uint (bsize + word_of_int SEGY_TRACE_HEADER_SIZE)
           = int (trace_pos trace0 bsize (unat i))"
proof -
  have b: "unat bsize + 240 < 2 ^ 32" and i: "unat i < 2 ^ 31" and t: "0 \<le> trace0"
    using tin by (simp_all add: trace_in_file_def)
  show ?thesis
    unfolding header_size_no_wrap[OF b] sint_small[OF i] trace_pos_def
    using t by (simp add: algebra_simps)
qed

lemma segy_seek_in_file:
  assumes rh: "readable_handle f" and tin: "trace_in_file (contents (fp f)) trace0 bsize i"
  shows "\<exists>f'. segy_seek f (sint i) trace0 bsize = Some (SEGY_OK, f') \<and> same_file f f'
           \<and> (if addr f then cur f' = int (trace_pos trace0 bsize (unat i))
               else pos (fp f') = trace_pos trace0 bsize (unat i))"
proof -
  let ?p = "trace0 + sint i * uint (bsize + word_of_int SEGY_TRACE_HEADER_SIZE)"
  let ?n = "trace_pos trace0 bsize (unat i)"
  have t: "0 \<le> trace0" "trace0 < 2 ^ 31"
    using tin by (simp_all add: trace_in_file_def)
  have p: "?p = int ?n" by (rule seek_position[OF tin])
  have lr: "long_range ?p = Some (int ?n)"
    using seek_long_range[OF t, of i "bsize + word_of_int SEGY_TRACE_HEADER_SIZE"] p by simp
  have n: "?n + 240 + unat bsize \<le> length (contents (fp f))"
    using tin by (simp add: trace_in_file_def trace_pos_Suc)
  have "int ?n < 2 ^ 63" using lr by (simp add: long_range_def split: if_splits)
  then have "int ?n < 2 ^ 64" by simp
  then have m: "int ?n mod 2 ^ 64 = int ?n" by simp
  show ?thesis
  proof (cases "addr f")
    case True
    then have "fsize f = length (contents (fp f))" using rh by (simp add: readable_handle_def)
    then have "\<not> fsize f \<le> ?n" using n by simp
    then show ?thesis
      unfolding segy_seek_def Let_def lr using True m
      by (simp add: same_file_def)
  next
    case False
    then show ?thesis
      unfolding segy_seek_def Let_def lr
      by (simp add: same_file_def fseek_set_def)
  qed
qed

lemma segy_traceheader_in_file:
  assumes rh: "readable_handle f" and tin: "trace_in_file (contents (fp f)) trace0 bsize i"
  shows "\<exists>f'. segy_traceheader f i trace0 bsize
             = Some (SEGY_OK, take 240 (drop (trace_pos trace0 bsize (unat i)) (contents (fp f))), f')
           \<and> same_file f f'"
proof -
  let ?n = "trace_pos trace0 bsize (unat i)"
  from segy_seek_in_file[OF rh tin] obtain f1 where
    s: "segy_seek f (sint i) trace0 bsize = Some (SEGY_OK, f1)" and sf: "same_file f f1"
    and ps: "if addr f then cur f1 = int ?n else pos (fp f1) = ?n" by blast
  have n: "?n + 240 + unat bsize \<le> length (contents (fp f))"
    using tin by (simp add: trace_in_file_def trace_pos_Suc)
  have c: "contents (fp f1) = contents (fp f)" "addr f1 = addr f" "readable (fp f1)"
    "addr f1 \<longrightarrow> fsize f1 = length (contents (fp f))"
    using sf rh by (auto simp: same_file_def readable_handle_def)
  show ?thesis
  proof (cases "addr f")
    case True
    then show ?thesis
      unfolding segy_traceheader_def s using ps c n sf
      by (simp add: mapped_read_def SEGY_TRACE_HEADER_SIZE_def)
  next
    case False
    then show ?thesis
      unfolding segy_traceheader_def s using ps c n sf
      by (simp add: fread_def SEGY_TRACE_HEADER_SIZE_def Let_def same_file_def)
  qed
qed

lemma segy_readtrace_in_file:
  assumes rh: "readable_handle f" and tin: "trace_in_file (contents (fp f)) trace0 bsize i"
  shows "\<exists>f'. segy_readtrace f i trace0 bsize
             = Some (SEGY_OK, take (unat bsize)
                       (drop (trace_pos trace0 bsize (unat i) + 240) (contents (fp f))), f')
           \<and> same_file f f'"
proof -
  let ?n = "trace_pos trace0 bsize (unat i)"
  from segy_seek_in_file[OF rh tin] obtain f1 where
    s: "segy_seek f (sint i) trace0 bsize = Some (SEGY_OK, f1)" and sf: "same_file f f1"
    and ps: "if addr f then cur f1 = int ?n else pos (fp f1) = ?n" by blast
  have n: "?n + 240 + unat bsize \<le> length (contents (fp f))"
    using tin by (simp add: trace_in_file_def trace_pos_Suc)
  have c: "contents (fp f1) = contents (fp f)" "addr f1 = addr f" "readable (fp f1)"
    "addr f1 \<longrightarrow> fsize f1 = length (contents (fp f))"
    using sf rh by (auto simp: same_file_def readable_handle_def)
  show ?thesis
  proof (cases "addr f")
    case True
    then show ?thesis
      unfolding segy_readtrace_def s using ps c n sf
      by (simp add: mapped_read_def skip_traceheader_def SEGY_TRACE_HEADER_SIZE_def
                    same_file_def nat_add_distrib)
  next
    case False
    then show ?thesis
      unfolding segy_readtrace_def s using ps c n sf
      by (simp add: fread_def skip_traceheader_def fseek_cur_def SEGY_TRACE_HEADER_SIZE_def
                    Let_def same_file_def nat_add_distrib)
  qed
qed

lemma segy_mmap_ok:
  assumes "readable (fp f)" "segy_mmap f = (SEGY_OK, g)"
  shows "readable_handle g \<and> addr g \<and> contents (fp g) = contents (fp f)"
  using assms
  by (auto simp: segy_mmap_def Let_def readable_handle_def split: if_splits)

lemma buffered_readable: "\<not> addr f \<Longrightarrow> readable (fp f) \<Longrightarrow> readable_handle f"
  by (simp add: readable_handle_def)

text \<open>
  C2. Let \<open>f\<close> be a handle that is not mapped and is open for reading, and \<open>g\<close> the handle
  that \<^verbatim>\<open>segy_mmap\<close> makes of it. For every trace that lies inside the file,
  \<^verbatim>\<open>segy_traceheader\<close> succeeds on both and stores the same 240 bytes, and \<^verbatim>\<open>segy_readtrace\<close>
  succeeds on both and stores the same \<^verbatim>\<open>trace_bsize\<close> bytes.
\<close>

theorem mapped_reads_equal_buffered:
  assumes "\<not> addr f" "readable (fp f)" "segy_mmap f = (SEGY_OK, g)"
    and "trace_in_file (contents (fp f)) trace0 trace_bsize traceno"
  shows "(\<exists>bs f' g'. segy_traceheader f traceno trace0 trace_bsize = Some (SEGY_OK, bs, f')
                   \<and> segy_traceheader g traceno trace0 trace_bsize = Some (SEGY_OK, bs, g'))
       \<and> (\<exists>bs f' g'. segy_readtrace f traceno trace0 trace_bsize = Some (SEGY_OK, bs, f')
                   \<and> segy_readtrace g traceno trace0 trace_bsize = Some (SEGY_OK, bs, g'))"
proof -
  have rf: "readable_handle f" using assms(1,2) by (rule buffered_readable)
  have rg: "readable_handle g" and cg: "contents (fp g) = contents (fp f)"
    using segy_mmap_ok[OF assms(2,3)] by simp_all
  have tg: "trace_in_file (contents (fp g)) trace0 trace_bsize traceno"
    using assms(4) cg by simp
  show ?thesis
    using segy_traceheader_in_file[OF rf assms(4)] segy_traceheader_in_file[OF rg tg]
          segy_readtrace_in_file[OF rf assms(4)] segy_readtrace_in_file[OF rg tg] cg
    by auto
qed

theorem mapped_reads_equal_buffered_witness:
  "(let f = the (segy_open (Some (replicate 240 1 @ [9, 9, 9, 9] @ replicate 240 2 @ [8, 8, 8, 8])) ''rb'');
        g = snd (segy_mmap f)
    in \<not> addr f \<and> readable (fp f) \<and> segy_mmap f = (SEGY_OK, g)
       \<and> trace_in_file (contents (fp f)) 0 4 1
       \<and> (\<exists>bs f' g'. segy_traceheader f 1 0 4 = Some (SEGY_OK, bs, f')
                   \<and> segy_traceheader g 1 0 4 = Some (SEGY_OK, bs, g'))
       \<and> (\<exists>bs f' g'. segy_readtrace f 1 0 4 = Some (SEGY_OK, bs, f')
                   \<and> segy_readtrace g 1 0 4 = Some (SEGY_OK, bs, g')))"
proof -
  define bytes :: "byte list" where
    "bytes = replicate 240 1 @ [9, 9, 9, 9] @ replicate 240 2 @ [8, 8, 8, 8]"
  define f where "f = the (segy_open (Some bytes) ''rb'')"
  define g where "g = snd (segy_mmap f)"
  have o: "segy_open (Some bytes) ''rb'' = Some f"
    by (simp add: f_def segy_open_def fopen_def)
  have h: "\<not> addr f" "readable (fp f)" and c: "contents (fp f) = bytes"
    using segy_open_rb[OF o] by simp_all
  have md: "mode f = ''rb''"
    by (simp add: f_def segy_open_def fopen_def)
  have m: "segy_mmap f = (SEGY_OK, g)"
    using h c md by (simp add: g_def segy_mmap_def Let_def mmap_rw_def bytes_def)
  have t: "trace_in_file (contents (fp f)) 0 4 1"
    unfolding c by (simp add: trace_in_file_def trace_pos_def bytes_def)
  show ?thesis
    unfolding Let_def bytes_def[symmetric] f_def[symmetric] g_def[symmetric]
    using mapped_reads_equal_buffered[OF h m t] h m t by simp
qed

section \<open>The sample interval\<close>

lemma segy_binheader_in_file:
  assumes "readable (fp f)" "3600 \<le> length (contents (fp f))"
  shows "\<exists>f'. segy_binheader (Some f) = (SEGY_OK, take 400 (drop 3200 (contents (fp f))), Some f')
           \<and> same_file f f'"
  using assms
  by (simp add: segy_binheader_def fseek_set_def fread_def Let_def same_file_def
                SEGY_TEXT_HEADER_SIZE_def SEGY_BINARY_HEADER_SIZE_def)

lemma same_file_readable_handle: "same_file f g \<Longrightarrow> readable_handle f \<Longrightarrow> readable_handle g"
  by (simp add: same_file_def readable_handle_def)

lemma same_file_contents: "same_file f g \<Longrightarrow> contents (fp g) = contents (fp f)"
  by (simp add: same_file_def)

lemma segy_sample_interval_result:
  assumes rh: "readable_handle f"
    and len: "3600 \<le> length (contents (fp f))"
    and bin: "bin_header = take 400 (drop 3200 (contents (fp f)))"
    and t0: "segy_trace0 H bin_header = Some trace0"
    and sm: "segy_samples H bin_header = Some samples"
    and tin: "trace_in_file (contents (fp f)) trace0 (segy_trace_bsize samples) 0"
    and hdr: "trace_header = take 240 (drop (nat trace0) (contents (fp f)))"
    and bus: "stored (segy_get_bfield H bin_header (BIN_Interval H)) = Some binary_header_dt_us"
    and tus: "stored (segy_get_field H trace_header (TRACE_SAMPLE_INTERVAL H)) = Some trace_header_dt_us"
  shows "\<exists>f'. segy_sample_interval H (Some f) dt =
           Some (Inr (if trace_header_dt_us = 0 \<and> binary_header_dt_us = 0 then dt
                      else if binary_header_dt_us = 0 then real_of_int trace_header_dt_us / 1000
                      else if trace_header_dt_us = 0 then real_of_int binary_header_dt_us / 1000
                      else if trace_header_dt_us = binary_header_dt_us
                        then real_of_int trace_header_dt_us / 1000
                      else dt), Some f')"
proof -
  have r: "readable (fp f)" using rh by (simp add: readable_handle_def)
  from segy_binheader_in_file[OF r len] obtain f1 where
    b: "segy_binheader (Some f) = (SEGY_OK, bin_header, Some f1)" and sf: "same_file f f1"
    using bin by auto
  have rh1: "readable_handle f1" using sf rh by (rule same_file_readable_handle)
  have c1: "contents (fp f1) = contents (fp f)" using sf by (rule same_file_contents)
  have tin1: "trace_in_file (contents (fp f1)) trace0 (segy_trace_bsize samples) 0"
    using tin c1 by simp
  from segy_traceheader_in_file[OF rh1 tin1] obtain f2 where
    th: "segy_traceheader f1 0 trace0 (segy_trace_bsize samples) = Some (SEGY_OK, trace_header, f2)"
    using hdr c1 by (auto simp: trace_pos_def)
  show ?thesis
    unfolding segy_sample_interval_def b
    by (simp add: t0 sm th bus tus Let_def)
qed




text \<open>
  C4, as amended. When the binary header, its fields and the first trace header can be
  read, \<^verbatim>\<open>segy_sample_interval\<close> returns 0 and leaves in \<^verbatim>\<open>*dt\<close>: the interval of the trace
  header in milliseconds when the interval of the binary header is zero; the interval of
  the binary header when that of the trace header is zero; their common value when they
  are equal; and the value that the caller passed in when both are zero. The last is also
  what it leaves when the two intervals are non-zero and differ.
\<close>

theorem segy_sample_interval_value:
  assumes "readable_handle f"
    and "3600 \<le> length (contents (fp f))"
    and "bin_header = take 400 (drop 3200 (contents (fp f)))"
    and "segy_trace0 H bin_header = Some trace0"
    and "segy_samples H bin_header = Some samples"
    and "trace_in_file (contents (fp f)) trace0 (segy_trace_bsize samples) 0"
    and "trace_header = take 240 (drop (nat trace0) (contents (fp f)))"
    and "stored (segy_get_bfield H bin_header (BIN_Interval H)) = Some binary_header_dt_us"
    and "stored (segy_get_field H trace_header (TRACE_SAMPLE_INTERVAL H)) = Some trace_header_dt_us"
  shows "\<exists>f'. segy_sample_interval H (Some f) dt =
           Some (Inr (if trace_header_dt_us = 0 \<and> binary_header_dt_us = 0 then dt
                      else if binary_header_dt_us = 0 then real_of_int trace_header_dt_us / 1000
                      else if trace_header_dt_us = 0 then real_of_int binary_header_dt_us / 1000
                      else if trace_header_dt_us = binary_header_dt_us
                        then real_of_int trace_header_dt_us / 1000
                      else dt), Some f')"
  using assms by (rule segy_sample_interval_result)

lemma be16_pair: "be16 [a, b] = push_bit 8 (ucast a) OR ucast b"
  by (simp add: be16_def)

lemma be32_quad:
  "be32 [a, b, c, d] =
     push_bit 8 (push_bit 8 (push_bit 8 (ucast a) OR ucast b) OR ucast c) OR ucast d"
  by (simp add: be32_def)

lemma replicate_2: "replicate 2 x = [x, x]"
  by (simp add: numeral_2_eq_2)

lemma replicate_4: "replicate 4 x = [x, x, x, x]"
  by (simp add: numeral_Bit0)

lemmas eval_field =
  segy_get_bfield_def segy_get_field_def get_field_def stored_def segy_rev1_def int_range_def
  SEGY_TEXT_HEADER_SIZE_def SEGY_BINARY_HEADER_SIZE_def SEGY_TRACE_HEADER_SIZE_def
  be16_pair be32_quad replicate_2 replicate_4 Let_def

lemma segy_open_rb_handle:
  "segy_open (Some bytes) ''rb'' = Some (the (segy_open (Some bytes) ''rb''))"
  by (simp add: segy_open_def fopen_def)

lemma segy_open_rb_readable:
  "readable_handle (the (segy_open (Some bytes) ''rb''))"
  "contents (fp (the (segy_open (Some bytes) ''rb''))) = bytes"
  using segy_open_rb[OF segy_open_rb_handle, of bytes] by (simp_all add: readable_handle_def)

theorem segy_sample_interval_value_witness:
  "(let bytes = replicate 3216 0 @ [0x0F, 0xA0] @ replicate 622 0;
        f = the (segy_open (Some bytes) ''rb'')
    in readable_handle f \<and> 3600 \<le> length (contents (fp f))
       \<and> segy_trace0 segy_rev1 (take 400 (drop 3200 (contents (fp f)))) = Some 3600
       \<and> segy_samples segy_rev1 (take 400 (drop 3200 (contents (fp f)))) = Some 0
       \<and> trace_in_file (contents (fp f)) 3600 (segy_trace_bsize 0) 0
       \<and> (\<exists>f'. segy_sample_interval segy_rev1 (Some f) 9 = Some (Inr 4, Some f')))"
proof -
  define bytes :: "byte list" where "bytes = replicate 3216 0 @ [0x0F, 0xA0] @ replicate 622 0"
  define f where "f = the (segy_open (Some bytes) ''rb'')"
  have c: "contents (fp f) = bytes" and rh: "readable_handle f"
    unfolding f_def by (rule segy_open_rb_readable)+
  have len: "3600 \<le> length (contents (fp f))" unfolding c by (simp add: bytes_def)
  have t0: "segy_trace0 segy_rev1 (take 400 (drop 3200 (contents (fp f)))) = Some 3600"
    unfolding c bytes_def by (simp add: segy_trace0_def eval_field)
  have sm: "segy_samples segy_rev1 (take 400 (drop 3200 (contents (fp f)))) = Some 0"
    unfolding c bytes_def by (simp add: segy_samples_def eval_field)
  have tin: "trace_in_file (contents (fp f)) 3600 (segy_trace_bsize 0) 0"
    unfolding c by (simp add: trace_in_file_def trace_pos_def segy_trace_bsize_def bytes_def)
  have bus: "stored (segy_get_bfield segy_rev1 (take 400 (drop 3200 (contents (fp f))))
               (BIN_Interval segy_rev1)) = Some 4000"
    unfolding c bytes_def by (simp add: eval_field)
  have tus: "stored (segy_get_field segy_rev1 (take 240 (drop (nat 3600) (contents (fp f))))
               (TRACE_SAMPLE_INTERVAL segy_rev1)) = Some 0"
    unfolding c bytes_def by (simp add: eval_field)
  show ?thesis
    unfolding Let_def bytes_def[symmetric] f_def[symmetric]
    using segy_sample_interval_value[OF rh len refl t0 sm tin refl bus tus, of 9]
          rh len t0 sm tin
    by simp
qed

text \<open>
  A file of 3840 zero bytes has both intervals zero. Called with \<^verbatim>\<open>*dt\<close> set to 9,
  \<^verbatim>\<open>segy_sample_interval\<close> leaves the 9 there: the branch is empty, nothing is set to zero.
\<close>

theorem segy_sample_interval_zero_counterexample:
  "map_option fst
     (segy_sample_interval segy_rev1 (Some (the (segy_open (Some (replicate 3840 0)) ''rb''))) 9)
     = Some (Inr 9)"
proof -
  define bytes :: "byte list" where "bytes = replicate 3840 0"
  define f where "f = the (segy_open (Some bytes) ''rb'')"
  have c: "contents (fp f) = bytes" and rh: "readable_handle f"
    unfolding f_def by (rule segy_open_rb_readable)+
  have len: "3600 \<le> length (contents (fp f))" unfolding c by (simp add: bytes_def)
  have t0: "segy_trace0 segy_rev1 (take 400 (drop 3200 (contents (fp f)))) = Some 3600"
    unfolding c bytes_def by (simp add: segy_trace0_def eval_field)
  have sm: "segy_samples segy_rev1 (take 400 (drop 3200 (contents (fp f)))) = Some 0"
    unfolding c bytes_def by (simp add: segy_samples_def eval_field)
  have tin: "trace_in_file (contents (fp f)) 3600 (segy_trace_bsize 0) 0"
    unfolding c by (simp add: trace_in_file_def trace_pos_def segy_trace_bsize_def bytes_def)
  have bus: "stored (segy_get_bfield segy_rev1 (take 400 (drop 3200 (contents (fp f))))
               (BIN_Interval segy_rev1)) = Some 0"
    unfolding c bytes_def by (simp add: eval_field)
  have tus: "stored (segy_get_field segy_rev1 (take 240 (drop (nat 3600) (contents (fp f))))
               (TRACE_SAMPLE_INTERVAL segy_rev1)) = Some 0"
    unfolding c bytes_def by (simp add: eval_field)
  from segy_sample_interval_result[OF rh len refl t0 sm tin refl bus tus, of 9]
  obtain f' where "segy_sample_interval segy_rev1 (Some f) 9 = Some (Inr 9, Some f')"
    by auto
  then show ?thesis
    unfolding bytes_def[symmetric] f_def[symmetric] by simp
qed

section \<open>Reading and writing lines\<close>

text \<open>
  C5. With \<^verbatim>\<open>line_trace0 = 1\<close>, \<^verbatim>\<open>line_length = 1\<close>, \<^verbatim>\<open>stride = 1\<close> and \<^verbatim>\<open>offsets = 2\<close> the two
  functions do not address the same trace: \<^verbatim>\<open>segy_write_line\<close> multiplies \<^verbatim>\<open>line_trace0\<close> by
  \<^verbatim>\<open>offsets\<close> and writes trace 2, \<^verbatim>\<open>segy_read_line\<close> reads trace 1.
\<close>

theorem write_line_multiplies_line_trace0:
  "segy_write_line f 1 1 1 2 buf trace0 trace_bsize = segy_writetrace f 2 buf trace0 trace_bsize
   \<and> segy_read_line f 1 1 1 2 buf trace0 trace_bsize =
       do {
         (err, bs, f) \<leftarrow> segy_readtrace f 1 trace0 trace_bsize;
         buf \<leftarrow> store_buf 0 bs buf;
         Some (err, buf, f)
       }"
proof
  have "segy_write_line f 1 1 1 2 buf trace0 trace_bsize =
          do { (err, f) \<leftarrow> segy_writetrace f 2 buf trace0 trace_bsize; Some (err, f) }"
    by (auto simp: segy_write_line_def Let_def split: Option.bind_split prod.splits)
  then show "segy_write_line f 1 1 1 2 buf trace0 trace_bsize
               = segy_writetrace f 2 buf trace0 trace_bsize"
    by (cases "segy_writetrace f 2 buf trace0 trace_bsize") auto
  show "segy_read_line f 1 1 1 2 buf trace0 trace_bsize =
       do {
         (err, bs, f) \<leftarrow> segy_readtrace f 1 trace0 trace_bsize;
         buf \<leftarrow> store_buf 0 bs buf;
         Some (err, buf, f)
       }"
    by (auto simp: segy_read_line_def Let_def split: Option.bind_split prod.splits)
qed

section \<open>Detecting the sorting\<close>

lemma trace_pos_mono: "i \<le> j \<Longrightarrow> trace_pos trace0 bsize i \<le> trace_pos trace0 bsize j"
  by (simp add: trace_pos_def)

lemma unat_of_nat_u32: "i < 2 ^ 31 \<Longrightarrow> unat (of_nat i :: u32) = i"
proof -
  assume "i < 2 ^ 31"
  then have "i < 2 ^ 32" by simp
  then have "i mod 2 ^ 32 = i" by (rule mod_less)
  then show ?thesis unfolding unat_of_nat by simp
qed

lemma file_of_traces_in_file:
  assumes "file_of_traces bytes trace0 bsize T" "i < T"
  shows "trace_in_file bytes trace0 bsize (of_nat i)" "unat (of_nat i :: u32) = i"
proof -
  have T: "T < 2 ^ 31" using assms(1) by (simp add: file_of_traces_def)
  then have i: "i < 2 ^ 31" using assms(2) by simp
  show u: "unat (of_nat i :: u32) = i" by (rule unat_of_nat_u32[OF i])
  have "trace_pos trace0 bsize (i + 1) \<le> trace_pos trace0 bsize T"
    using assms(2) by (intro trace_pos_mono) simp
  then show "trace_in_file bytes trace0 bsize (of_nat i)"
    using assms(1) i unfolding trace_in_file_def file_of_traces_def u by simp
qed

lemma traceheader_of_trace:
  assumes rh: "readable_handle f" and ft: "file_of_traces (contents (fp f)) trace0 bsize T"
    and i: "i < T"
  shows "\<exists>f'. segy_traceheader f (of_nat i) trace0 bsize
             = Some (SEGY_OK, take 240 (drop (trace_pos trace0 bsize i) (contents (fp f))), f')
           \<and> same_file f f'"
  using segy_traceheader_in_file[OF rh file_of_traces_in_file(1)[OF ft i]]
  unfolding file_of_traces_in_file(2)[OF ft i] .

lemma header_of_trace_length:
  assumes ft: "file_of_traces bytes trace0 bsize T" and i: "i < T"
  shows "length (take 240 (drop (trace_pos trace0 bsize i) bytes)) = 240"
proof -
  have "trace_pos trace0 bsize (Suc i) \<le> trace_pos trace0 bsize T"
    using i by (intro trace_pos_mono) simp
  then have "trace_pos trace0 bsize i + 240 \<le> length bytes"
    using ft by (simp add: file_of_traces_def trace_pos_Suc)
  then show ?thesis by simp
qed

lemma stored_field_at:
  assumes fi: "fields_inside H" and fld: "0 \<le> field" "field < 240"
    and w: "field_size H field = 2 \<or> field_size H field = 4"
    and ft: "file_of_traces bytes trace0 bsize T" and i: "i < T"
  shows "stored (segy_get_field H (take 240 (drop (trace_pos trace0 bsize i) bytes)) field)
           = Some (field_at H bytes trace0 bsize field i)"
proof -
  let ?h = "take 240 (drop (trace_pos trace0 bsize i) bytes)"
  have len: "length ?h = 240" by (rule header_of_trace_length[OF ft i])
  have "field \<in> {0..<240}" using fld by simp
  with fi have b:
    "(field_size H field = 4 \<longrightarrow> 1 \<le> field \<and> field + 3 \<le> 240)
     \<and> (field_size H field = 2 \<longrightarrow> 1 \<le> field \<and> field + 1 \<le> 240)"
    unfolding fields_inside_def by blast
  have "\<exists>v. segy_get_field H ?h field = Some (Inr v)"
    using w b fld len
    unfolding segy_get_field_def get_field_def Let_def SEGY_TRACE_HEADER_SIZE_def
    by auto
  then show ?thesis by (auto simp: field_at_def stored_def)
qed

lemma segy_traces_of_file:
  assumes ft: "file_of_traces (contents (fp f)) trace0 bsize T"
  shows "segy_traces f trace0 bsize = Some (Inr T)"
proof -
  have b: "unat bsize + 240 < 2 ^ 32" and t: "0 \<le> trace0"
    and len: "length (contents (fp f)) = trace_pos trace0 bsize T" and T: "T < 2 ^ 31"
    using ft by (simp_all add: file_of_traces_def)
  let ?B = "int (unat bsize) + 240"
  have B: "uint (bsize + word_of_int SEGY_TRACE_HEADER_SIZE) = ?B"
    by (rule header_size_no_wrap[OF b])
  have "0 \<le> int (unat bsize)" by (rule of_nat_0_le_iff)
  then have Bpos: "0 < ?B" by linarith
  have nz: "bsize + word_of_int SEGY_TRACE_HEADER_SIZE \<noteq> 0"
  proof
    assume "bsize + word_of_int SEGY_TRACE_HEADER_SIZE = 0"
    then have "uint (bsize + word_of_int SEGY_TRACE_HEADER_SIZE) = 0" by simp
    then have "?B = 0" unfolding B .
    with Bpos show False by linarith
  qed
  have d: "int (length (contents (fp f))) - trace0 = int T * ?B"
    using t unfolding len trace_pos_def by (simp add: algebra_simps)
  have "int (unat bsize + 240) < int (2 ^ 32)" using b by (rule iffD2[OF of_nat_less_iff])
  then have Bb: "?B < 2 ^ 32" by simp
  have "int T * ?B < 2 ^ 31 * 2 ^ 32"
  proof -
    have "int T * ?B \<le> 2 ^ 31 * ?B" using T by (intro mult_right_mono) simp_all
    also have "\<dots> < 2 ^ 31 * 2 ^ 32" using Bb by simp
    finally show ?thesis .
  qed
  then have "int T * ?B < 2 ^ 64" by simp
  then have m: "(int T * ?B) mod 2 ^ 64 = int T * ?B" by simp
  show ?thesis
    unfolding segy_traces_def Let_def d m B
    using nz Bpos by simp
qed

lemma sorting_loop_result:
  assumes ft: "file_of_traces bytes trace0 bsize T" and fi: "fields_inside H"
    and il: "0 \<le> il" "il < 240" "field_size H il = 2 \<or> field_size H il = 4"
    and xl: "0 \<le> xl" "xl < 240" "field_size H xl = 2 \<or> field_size H xl = 4"
    and ofs: "0 \<le> offset H" "offset H < 240"
             "field_size H (offset H) = 2 \<or> field_size H (offset H) = 4"
  shows "readable_handle f \<Longrightarrow> contents (fp f) = bytes \<Longrightarrow> j + n = T - 1 \<Longrightarrow> 1 \<le> j \<Longrightarrow>
         \<exists>f'. sorting_loop H f il xl off0 (int T) trace0 bsize (int j)
                 = Some (Inr (field_at H bytes trace0 bsize il
                                (find_from (\<lambda>k. field_at H bytes trace0 bsize (offset H) k = off0) j n),
                              field_at H bytes trace0 bsize xl
                                (find_from (\<lambda>k. field_at H bytes trace0 bsize (offset H) k = off0) j n)),
                         f')
              \<and> same_file f f'"
proof (induction n arbitrary: f j)
  case 0
  then have jT: "j < T" "\<not> int j + 1 < int T" by linarith+
  have ft': "file_of_traces (contents (fp f)) trace0 bsize T" using ft "0.prems"(2) by simp
  from traceheader_of_trace[OF "0.prems"(1) ft' jT(1)] obtain f' where
    th: "segy_traceheader f (of_nat j) trace0 bsize
           = Some (SEGY_OK, take 240 (drop (trace_pos trace0 bsize j) bytes), f')"
    and sf: "same_file f f'" using "0.prems"(2) by auto
  show ?case
    by (subst sorting_loop.simps)
       (simp add: th stored_field_at[OF fi il ft jT(1)] stored_field_at[OF fi xl ft jT(1)]
                  stored_field_at[OF fi ofs ft jT(1)] jT(2) sf)
next
  case (Suc n)
  then have jT: "j < T" "int j + 1 < int T" by linarith+
  have ft': "file_of_traces (contents (fp f)) trace0 bsize T" using ft Suc.prems(2) by simp
  from traceheader_of_trace[OF Suc.prems(1) ft' jT(1)] obtain f' where
    th: "segy_traceheader f (of_nat j) trace0 bsize
           = Some (SEGY_OK, take 240 (drop (trace_pos trace0 bsize j) bytes), f')"
    and sf: "same_file f f'" using Suc.prems(2) by auto
  show ?case
  proof (cases "field_at H bytes trace0 bsize (offset H) j = off0")
    case True
    then show ?thesis
      by (subst sorting_loop.simps)
         (simp add: th stored_field_at[OF fi il ft jT(1)] stored_field_at[OF fi xl ft jT(1)]
                    stored_field_at[OF fi ofs ft jT(1)] sf)
  next
    case False
    have rh': "readable_handle f'" using sf Suc.prems(1) by (rule same_file_readable_handle)
    have c': "contents (fp f') = bytes" using same_file_contents[OF sf] Suc.prems(2) by simp
    have n': "Suc j + n = T - 1" "1 \<le> Suc j" using Suc.prems(3) by simp_all
    from Suc.IH[OF rh' c' n'] obtain f'' where
      r: "sorting_loop H f' il xl off0 (int T) trace0 bsize (int (Suc j))
            = Some (Inr (field_at H bytes trace0 bsize il
                          (find_from (\<lambda>k. field_at H bytes trace0 bsize (offset H) k = off0) (Suc j) n),
                         field_at H bytes trace0 bsize xl
                          (find_from (\<lambda>k. field_at H bytes trace0 bsize (offset H) k = off0) (Suc j) n)),
                    f'')"
      and sf': "same_file f' f''" by blast
    have e: "int j + 1 = int (Suc j)" by simp
    have "sorting_loop H f il xl off0 (int T) trace0 bsize (int j)
            = sorting_loop H f' il xl off0 (int T) trace0 bsize (int (Suc j))"
      using False jT(2)
      by (subst sorting_loop.simps)
         (auto simp: th stored_field_at[OF fi il ft jT(1)] stored_field_at[OF fi xl ft jT(1)]
                    stored_field_at[OF fi ofs ft jT(1)] e simp del: of_nat_Suc)
    then show ?thesis
      using r False same_file_trans[OF sf sf'] by simp
  qed
qed

lemma sint_of_nat_u32: "T < 2 ^ 31 \<Longrightarrow> sint (word_of_nat T :: u32) = int T"
  using sint_small[of "word_of_nat T"] unat_of_nat_u32[of T] by simp

lemma segy_sorting_table:
  assumes rh: "readable_handle f"
    and ft: "file_of_traces (contents (fp f)) trace0 trace_bsize T" and T2: "2 \<le> T"
    and fi: "fields_inside H"
    and il: "0 \<le> il" "il < 240" "field_size H il = 2 \<or> field_size H il = 4"
    and xl: "0 \<le> xl" "xl < 240" "field_size H xl = 2 \<or> field_size H xl = 4"
    and ofs: "0 \<le> offset H" "offset H < 240"
             "field_size H (offset H) = 2 \<or> field_size H (offset H) = 4"
  shows "\<exists>f'. segy_sorting H f il xl trace0 trace_bsize =
           Some (spec_tie_break (field_at H (contents (fp f)) trace0 trace_bsize il)
                   (field_at H (contents (fp f)) trace0 trace_bsize xl) T
                   (same_offset_stop (field_at H (contents (fp f)) trace0 trace_bsize (offset H)) T),
                 f')"
proof -
  define bytes where "bytes = contents (fp f)"
  define IL where "IL = field_at H bytes trace0 trace_bsize il"
  define XL where "XL = field_at H bytes trace0 trace_bsize xl"
  define OFF where "OFF = field_at H bytes trace0 trace_bsize (offset H)"
  define s where "s = find_from (\<lambda>k. OFF k = OFF 0) 1 (T - 2)"
  note ftb = ft[folded bytes_def]
  have T: "T < 2 ^ 31" using ft by (simp add: file_of_traces_def)
  have T0: "0 < T" "T - 1 < T" using T2 by simp_all
  \<comment> \<open>trace 0\<close>
  from traceheader_of_trace[OF rh ft T0(1)] obtain f1 where
    th0: "segy_traceheader f 0 trace0 trace_bsize
            = Some (SEGY_OK, take 240 (drop (trace_pos trace0 trace_bsize 0) bytes), f1)"
    and sf1: "same_file f f1" by (auto simp: bytes_def)
  have rh1: "readable_handle f1" using sf1 rh by (rule same_file_readable_handle)
  have c1: "contents (fp f1) = bytes" using same_file_contents[OF sf1] by (simp add: bytes_def)
  note v0 = stored_field_at[OF fi il ftb T0(1), folded IL_def]
            stored_field_at[OF fi xl ftb T0(1), folded XL_def]
            stored_field_at[OF fi ofs ftb T0(1), folded OFF_def]
  \<comment> \<open>the number of traces\<close>
  have tr: "segy_traces f1 trace0 trace_bsize = Some (Inr T)"
    using segy_traces_of_file[of f1 trace0 trace_bsize T] ftb c1 by simp
  have sT: "sint (word_of_nat T :: u32) = int T" by (rule sint_of_nat_u32[OF T])
  \<comment> \<open>the walk\<close>
  have "1 + (T - 2) = T - 1" using T2 by simp
  from sorting_loop_result[OF ftb fi il xl ofs rh1 c1 this, of "OFF 0"]
  obtain f2 where
    lp: "sorting_loop H f1 il xl (OFF 0) (int T) trace0 trace_bsize 1 = Some (Inr (IL s, XL s), f2)"
    and sf2: "same_file f1 f2"
    by (auto simp: IL_def XL_def OFF_def s_def)
  have rh2: "readable_handle f2" using sf2 rh1 by (rule same_file_readable_handle)
  have c2: "contents (fp f2) = bytes" using same_file_contents[OF sf2] c1 by simp
  \<comment> \<open>the last trace\<close>
  define L where "L = T - 1"
  have LT: "L < T" using T2 by (simp add: L_def)
  have ft2: "file_of_traces (contents (fp f2)) trace0 trace_bsize T" using ftb c2 by simp
  from traceheader_of_trace[OF rh2 ft2 LT] obtain f3 where
    thl: "segy_traceheader f2 (of_nat L) trace0 trace_bsize
            = Some (SEGY_OK, take 240 (drop (trace_pos trace0 trace_bsize L) bytes), f3)"
    using c2 by auto
  have "1 \<le> T" using T2 by simp
  then have "(of_nat (T - 1) :: u32) = of_nat T - of_nat 1" by (rule of_nat_diff)
  then have last: "(word_of_nat T - 1 :: u32) = of_nat L" by (simp only: of_nat_1 L_def)
  note thl' = thl[folded last]
  have nz: "field_size H il \<noteq> 0" "field_size H xl \<noteq> 0" using il(3) xl(3) by auto
  note vl = stored_field_at[OF fi il ftb LT, folded IL_def]
            stored_field_at[OF fi xl ftb LT, folded XL_def]
  have "segy_sorting H f il xl trace0 trace_bsize =
          Some (if IL 0 = IL L then Inr CROSSLINE_SORTING
                else if XL 0 = XL L then Inr INLINE_SORTING
                else if IL 0 = IL s then Inr INLINE_SORTING
                else if XL 0 = XL s then Inr CROSSLINE_SORTING
                else Inl SEGY_INVALID_SORTING, f3)"
    unfolding segy_sorting_def
    using il xl
    by (simp add: th0 v0 tr sT lp thl' vl nz SEGY_TRACE_HEADER_SIZE_def)
  then show ?thesis
    unfolding spec_tie_break_def IL_def XL_def OFF_def s_def same_offset_stop_def bytes_def L_def
    by blast
qed

text \<open>
  C3, as amended. On a file of \<open>T \<ge> 2\<close> traces, with inline, crossline and offset fields
  that the table knows, \<^verbatim>\<open>segy_sorting\<close> returns what the tie-break table gives for trace 0,
  trace \<open>T - 1\<close> and, in the place of ``trace 1'', the trace at which the loop of the code
  stops: the first trace after trace 0 whose offset is that of trace 0 again, or the last
  trace when there is none before it. The loop does not stop where the offset changes.
\<close>

theorem segy_sorting_tie_break:
  assumes "readable_handle f"
    and "file_of_traces (contents (fp f)) trace0 trace_bsize T" and "2 \<le> T"
    and "fields_inside H"
    and "0 \<le> il" "il < 240" "field_size H il = 2 \<or> field_size H il = 4"
    and "0 \<le> xl" "xl < 240" "field_size H xl = 2 \<or> field_size H xl = 4"
    and "0 \<le> offset H" "offset H < 240"
        "field_size H (offset H) = 2 \<or> field_size H (offset H) = 4"
  shows "\<exists>f'. segy_sorting H f il xl trace0 trace_bsize =
           Some (spec_tie_break (field_at H (contents (fp f)) trace0 trace_bsize il)
                   (field_at H (contents (fp f)) trace0 trace_bsize xl) T
                   (same_offset_stop (field_at H (contents (fp f)) trace0 trace_bsize (offset H)) T),
                 f')"
  using assms by (rule segy_sorting_table)

lemma find_from_1: "find_from P j 1 = (if P j then j else Suc j)"
  by simp

lemma three_traces_fields:
  "field_at segy_rev1 three_traces 0 0 189 0 = 1"
  "field_at segy_rev1 three_traces 0 0 189 1 = 1"
  "field_at segy_rev1 three_traces 0 0 189 2 = 2"
  "field_at segy_rev1 three_traces 0 0 193 0 = 1"
  "field_at segy_rev1 three_traces 0 0 193 1 = 2"
  "field_at segy_rev1 three_traces 0 0 193 2 = 3"
  "field_at segy_rev1 three_traces 0 0 37 0 = 0"
  "field_at segy_rev1 three_traces 0 0 37 1 = 0"
  "field_at segy_rev1 three_traces 0 0 37 2 = 0"
  "field_at segy_rev1 three_traces 0 0 189 (Suc 0) = 1"
  "field_at segy_rev1 three_traces 0 0 193 (Suc 0) = 2"
  "field_at segy_rev1 three_traces 0 0 37 (Suc 0) = 0"
  by (simp_all add: field_at_def trace_pos_def three_traces_def eval_field)

lemma three_traces_file:
  "readable_handle (the (segy_open (Some three_traces) ''rb''))"
  "contents (fp (the (segy_open (Some three_traces) ''rb''))) = three_traces"
  "file_of_traces three_traces 0 0 3"
  "fields_inside segy_rev1"
    apply (rule segy_open_rb_readable)
   apply (rule segy_open_rb_readable)
   apply (simp add: file_of_traces_def trace_pos_def three_traces_def)
  apply (auto simp: fields_inside_def segy_rev1_def)
  done

lemma three_traces_stops:
  "same_offset_stop (field_at segy_rev1 three_traces 0 0 37) 3 = 1"
  "spec_walk_stop (field_at segy_rev1 three_traces 0 0 37) 3 = 2"
proof -
  have n: "(3::nat) - 2 = 1" by simp
  show "same_offset_stop (field_at segy_rev1 three_traces 0 0 37) 3 = 1"
    unfolding same_offset_stop_def n find_from_1 by (simp add: three_traces_fields)
  have "Suc 1 = 2" by simp
  then show "spec_walk_stop (field_at segy_rev1 three_traces 0 0 37) 3 = 2"
    unfolding spec_walk_stop_def n find_from_1 by (simp add: three_traces_fields)
qed

lemma three_traces_sorting:
  "\<exists>f'. segy_sorting segy_rev1 (the (segy_open (Some three_traces) ''rb'')) 189 193 0 0
          = Some (Inr INLINE_SORTING, f')"
proof -
  define f where "f = the (segy_open (Some three_traces) ''rb'')"
  have rh: "readable_handle f" and c: "contents (fp f) = three_traces"
    unfolding f_def by (rule three_traces_file)+
  have ft: "file_of_traces (contents (fp f)) 0 0 3" unfolding c by (rule three_traces_file)
  have o: "offset segy_rev1 = 37" by (simp add: segy_rev1_def)
  have n: "(3::nat) - 1 = 2" by simp
  from segy_sorting_table[OF rh ft _ three_traces_file(4), of 189 193]
  have "\<exists>f'. segy_sorting segy_rev1 f 189 193 0 0 =
           Some (spec_tie_break (field_at segy_rev1 three_traces 0 0 189)
                   (field_at segy_rev1 three_traces 0 0 193) 3
                   (same_offset_stop (field_at segy_rev1 three_traces 0 0 37) 3), f')"
    unfolding c o by (simp add: segy_rev1_def)
  then show ?thesis
    unfolding three_traces_stops spec_tie_break_def n f_def[symmetric]
    by (simp add: three_traces_fields)
qed

theorem segy_sorting_tie_break_witness:
  "(let f = the (segy_open (Some three_traces) ''rb'')
    in readable_handle f \<and> file_of_traces (contents (fp f)) 0 0 3 \<and> fields_inside segy_rev1
       \<and> (\<exists>f'. segy_sorting segy_rev1 f 189 193 0 0 =
             Some (spec_tie_break (field_at segy_rev1 (contents (fp f)) 0 0 189)
                     (field_at segy_rev1 (contents (fp f)) 0 0 193) 3
                     (same_offset_stop (field_at segy_rev1 (contents (fp f)) 0 0 (offset segy_rev1)) 3),
                   f')))"
proof -
  define f where "f = the (segy_open (Some three_traces) ''rb'')"
  have rh: "readable_handle f" and c: "contents (fp f) = three_traces"
    unfolding f_def by (rule three_traces_file)+
  have ft: "file_of_traces (contents (fp f)) 0 0 3" unfolding c by (rule three_traces_file)
  have h: "(0::int) \<le> 189" "(189::int) < 240"
          "field_size segy_rev1 189 = 2 \<or> field_size segy_rev1 189 = 4"
          "(0::int) \<le> 193" "(193::int) < 240"
          "field_size segy_rev1 193 = 2 \<or> field_size segy_rev1 193 = 4"
          "0 \<le> offset segy_rev1" "offset segy_rev1 < 240"
          "field_size segy_rev1 (offset segy_rev1) = 2 \<or> field_size segy_rev1 (offset segy_rev1) = 4"
    by (simp_all add: segy_rev1_def)
  have T: "(2::nat) \<le> 3" by simp
  show ?thesis
    unfolding Let_def f_def[symmetric]
    using segy_sorting_tie_break[OF rh ft T three_traces_file(4) h] rh ft three_traces_file(4)
    by simp
qed

text \<open>
  On the file \<open>three_traces\<close> every offset is 0, so the walk of the spec, which waits for
  the offset to change, ends at the last trace, and the table of the spec gives
  \<^verbatim>\<open>SEGY_INVALID_SORTING\<close>. The code stops at trace 1, whose inline number is that of trace
  0, and returns \<^verbatim>\<open>INLINE_SORTING\<close>.
\<close>

theorem segy_sorting_spec_walk_counterexample:
  "map_option fst (segy_sorting segy_rev1 (the (segy_open (Some three_traces) ''rb'')) 189 193 0 0)
     = Some (Inr INLINE_SORTING)
   \<and> spec_tie_break (field_at segy_rev1 three_traces 0 0 189)
        (field_at segy_rev1 three_traces 0 0 193) 3
        (spec_walk_stop (field_at segy_rev1 three_traces 0 0 37) 3)
     = Inl SEGY_INVALID_SORTING"
proof
  from three_traces_sorting obtain f' where
    "segy_sorting segy_rev1 (the (segy_open (Some three_traces) ''rb'')) 189 193 0 0
       = Some (Inr INLINE_SORTING, f')" by blast
  then show "map_option fst
      (segy_sorting segy_rev1 (the (segy_open (Some three_traces) ''rb'')) 189 193 0 0)
     = Some (Inr INLINE_SORTING)" by simp
  have n: "(3::nat) - 1 = 2" by simp
  show "spec_tie_break (field_at segy_rev1 three_traces 0 0 189)
        (field_at segy_rev1 three_traces 0 0 193) 3
        (spec_walk_stop (field_at segy_rev1 three_traces 0 0 37) 3)
     = Inl SEGY_INVALID_SORTING"
    unfolding three_traces_stops spec_tie_break_def n by (simp add: three_traces_fields)
qed

section \<open>Counting lines\<close>














































end
